theory Spec2Isabelle
  imports Main
begin

section \<open>The model picker: a shallow embedding of \<open>index.tsx\<close>\<close>

text \<open>
  The file \<open>index.tsx\<close> defines the hook \<open>useModelPicker\<close> and the component
  \<open>ModelPicker\<close> built on it. Both are React function components: a render reads the
  state, the effects of a committed render run in declaration order when one of their
  dependencies changed, the setters they call are queued, and the queue is applied
  before the next render. The development below writes this cycle out:
  \<^item> the state cells of the hook form a record, \<open>state\<close>;
  \<^item> a render is a function of the state that may throw, \<open>useModelPicker\<close>;
  \<^item> every effect is a function from the rendered state (its closure) and the pending
    state (the queue applied so far) to the new pending state, or to an exception;
  \<^item> the cycle is iterated by \<open>hook_run\<close> with fuel, until a render triggers no effect.

  Scope. The option \<open>useLocalStorage\<close> is modelled at its default \<open>false\<close>, where
  \<open>useStorage\<close> is React's \<open>useState\<close>; the other branch delegates to a package that is
  not part of this repository. The provider objects of the caller are functions that
  return a value or throw, and they are deterministic; the models they build are objects,
  not functions. The setters the hook returns are called with strings, as their types say. The effect of \<open>ModelPicker\<close> that forwards the model to
  \<open>onModelChange\<close> touches no state of the component and is left out.
\<close>

subsection \<open>JavaScript values\<close>

text \<open>The values a state cell of the hook can come to hold. The source types the cells
  \<open>string\<close>. At run time a cell holds \<open>undefined\<close> after \<open>xs[0]\<close> on an empty array, and
  the two dictionaries are plain objects, so a provider name that is also the name of a
  property every object inherits reads that property: a function, which React applies
  to the old value of the cell when it is handed to a setter. The results are the string
  \<open>[object Undefined]\<close>, \<open>false\<close>, and the objects \<open>Object(v)\<close> makes of a value.

  Objects are compared by identity in JavaScript and as values here. The two agree on the
  runs of the hook: a wrapper is only made by \<open>Object\<close>, read through the name
  \<open>constructor\<close> of a dictionary that has no entry of that name and applied to a value
  that is no object; storing it changes the cell, so the next commit writes the entry, and
  from then on the entry is read instead. No cell and no dictionary ever holds two
  wrappers of the same value.\<close>

datatype jsval =
  Undefined | Str string | Bool bool
  | StringObject string | BooleanObject bool | PlainObject | ObjectPrototype

text \<open>The functions that every object inherits from \<open>Object.prototype\<close>.\<close>

datatype builtin =
  B_constructor | B_toString | B_toLocaleString | B_valueOf | B_hasOwnProperty
  | B_isPrototypeOf | B_propertyIsEnumerable
  | B_defineGetter | B_defineSetter | B_lookupGetter | B_lookupSetter

text \<open>What a property read gives: a value, or one of these functions.\<close>

datatype jsprop = Val jsval | Fun builtin

text \<open>Truthiness, as \<open>if (v)\<close> tests it: \<open>undefined\<close>, the empty string and \<open>false\<close> are
  falsy; every object and every function is truthy.\<close>

definition truthy :: "jsprop \<Rightarrow> bool" where
  "truthy p =
     (case p of
        Fun f \<Rightarrow> True
      | Val v \<Rightarrow>
          (case v of Undefined \<Rightarrow> False | Str s \<Rightarrow> s \<noteq> [] | Bool b \<Rightarrow> b | _ \<Rightarrow> True))"

text \<open>\<open>xs[0]\<close>: \<open>undefined\<close> on the empty array.\<close>

definition index0 :: "string list \<Rightarrow> jsval" where
  "index0 xs = (case xs of [] \<Rightarrow> Undefined | x # _ \<Rightarrow> Str x)"

text \<open>\<open>xs.includes(v)\<close> on an array of strings: only a string is equal to a string.\<close>

definition js_includes :: "string list \<Rightarrow> jsval \<Rightarrow> bool" where
  "js_includes xs v = (case v of Str s \<Rightarrow> s \<in> set xs | _ \<Rightarrow> False)"

text \<open>The properties of \<open>Object.prototype\<close>. All are functions but \<open>__proto__\<close>, an accessor
  that gives the prototype of the object it is read on, here \<open>Object.prototype\<close> itself.\<close>

definition object_prototype :: "(string \<times> jsprop) list" where
  "object_prototype =
     [(''constructor'', Fun B_constructor),
      (''toString'', Fun B_toString),
      (''toLocaleString'', Fun B_toLocaleString),
      (''valueOf'', Fun B_valueOf),
      (''hasOwnProperty'', Fun B_hasOwnProperty),
      (''isPrototypeOf'', Fun B_isPrototypeOf),
      (''propertyIsEnumerable'', Fun B_propertyIsEnumerable),
      (''__defineGetter__'', Fun B_defineGetter),
      (''__defineSetter__'', Fun B_defineSetter),
      (''__lookupGetter__'', Fun B_lookupGetter),
      (''__lookupSetter__'', Fun B_lookupSetter),
      (''__proto__'', Val ObjectPrototype)]"

definition inherited :: "string \<Rightarrow> jsprop option" where
  "inherited key = map_of object_prototype key"

text \<open>\<open>obj[key]\<close> on a plain object used as a dictionary: the entry of the object when it
  has one, which \<open>{ ...prev, [key]: v }\<close> writes for every key, else the inherited
  property, else \<open>undefined\<close>.\<close>

definition js_get :: "(string \<rightharpoonup> jsval) \<Rightarrow> string \<Rightarrow> jsprop" where
  "js_get obj key =
     (case obj key of
        Some v \<Rightarrow> Val v
      | None \<Rightarrow> (case inherited key of Some p \<Rightarrow> p | None \<Rightarrow> Val Undefined))"

text \<open>Exceptions: the \<open>TypeError\<close> of a property read on \<open>undefined\<close>, and whatever the
  caller's provider code throws.\<close>

datatype js_error = TypeError | Thrown string

text \<open>\<open>Object(v)\<close>: a new empty object for \<open>undefined\<close>, a wrapper for a string or a
  boolean, the object itself for an object.\<close>

definition to_object :: "jsval \<Rightarrow> jsval" where
  "to_object v =
     (case v of
        Undefined \<Rightarrow> PlainObject
      | Str s \<Rightarrow> StringObject s
      | Bool b \<Rightarrow> BooleanObject b
      | _ \<Rightarrow> v)"

definition is_object :: "jsval \<Rightarrow> bool" where
  "is_object v = (case v of Undefined \<Rightarrow> False | Str s \<Rightarrow> False | Bool b \<Rightarrow> False | _ \<Rightarrow> True)"

text \<open>An inherited function called as React calls an updater, \<open>f(prev)\<close>, with no \<open>this\<close>.
  \<open>Object\<close> converts its argument; \<open>toString\<close> describes its missing \<open>this\<close>;
  \<open>isPrototypeOf\<close> answers \<open>false\<close> for an argument that is no object and converts
  \<open>this\<close> otherwise; every other one starts by converting or reading \<open>this\<close>, which throws
  a \<open>TypeError\<close>.\<close>

definition call_builtin :: "builtin \<Rightarrow> jsval \<Rightarrow> js_error + jsval" where
  "call_builtin f prev =
     (case f of
        B_constructor \<Rightarrow> Inr (to_object prev)
      | B_toString \<Rightarrow> Inr (Str ''[object Undefined]'')
      | B_isPrototypeOf \<Rightarrow> if is_object prev then Inl TypeError else Inr (Bool False)
      | _ \<Rightarrow> Inl TypeError)"

text \<open>What the next render makes of a setter call: a value replaces the cell, a function is
  an updater and is applied to the value of the cell. What the updater throws is thrown
  in that render.\<close>

definition set_state :: "jsprop \<Rightarrow> jsval \<Rightarrow> js_error + jsval" where
  "set_state a prev = (case a of Val v \<Rightarrow> Inr v | Fun f \<Rightarrow> call_builtin f prev)"

subsection \<open>Providers and options\<close>

datatype ModelType = Embedding | Language | Image

text \<open>The object a provider constructor returns, with the three accessors the hook calls.\<close>

record 'm Provider =
  languageModel :: "jsval \<Rightarrow> js_error + 'm"
  textEmbeddingModel :: "jsval \<Rightarrow> js_error + 'm"
  imageModel :: "jsval \<Rightarrow> js_error + 'm"

text \<open>An element of \<open>providers\<close>; the constructor is called with \<open>{ apiKey }\<close>.\<close>

record 'm descriptor =
  provider :: "jsval \<Rightarrow> js_error + 'm Provider"
  name :: string
  models :: "string list"

record options =
  modelType :: "ModelType option"

text \<open>\<open>const { modelType = ModelType.Language } = options || {}\<close>\<close>

definition modelType_of :: "options option \<Rightarrow> ModelType" where
  "modelType_of opts =
     (case opts of None \<Rightarrow> Language
      | Some o1 \<Rightarrow> (case modelType o1 of None \<Rightarrow> Language | Some t \<Rightarrow> t))"

type_synonym 'm entry = "(jsval \<Rightarrow> js_error + 'm Provider) \<times> string list"

text \<open>The loop \<open>for (const provider of providers) providerMap.set(...)\<close>: a later
  descriptor replaces an earlier one of the same name.\<close>

definition providerMap :: "'m descriptor list \<Rightarrow> (string \<rightharpoonup> 'm entry)" where
  "providerMap providers =
     foldl (\<lambda>pm p. pm(name p \<mapsto> (provider p, models p))) Map.empty providers"

text \<open>The \<open>switch (modelType)\<close> of \<open>getModel\<close> and of the first effect.\<close>

definition accessor :: "ModelType \<Rightarrow> 'm Provider \<Rightarrow> jsval \<Rightarrow> js_error + 'm" where
  "accessor mt p mid =
     (case mt of
        Language \<Rightarrow> languageModel p mid
      | Embedding \<Rightarrow> textEmbeddingModel p mid
      | Image \<Rightarrow> imageModel p mid)"

text \<open>\<open>getModel\<close>: \<open>providerMap.get(selectedProvider)?.provider({ apiKey })\<close> is
  \<open>undefined\<close> for an unknown name, and \<open>provider!.languageModel\<close> then throws.\<close>

definition getModel ::
  "(string \<rightharpoonup> 'm entry) \<Rightarrow> ModelType \<Rightarrow> string \<Rightarrow> jsval \<Rightarrow> jsval \<Rightarrow> js_error + 'm" where
  "getModel pm mt sp k mid =
     (case pm sp of
        None \<Rightarrow> Inl TypeError
      | Some (ctor, _) \<Rightarrow>
          (case ctor k of Inl e \<Rightarrow> Inl e | Inr p \<Rightarrow> accessor mt p mid))"

subsection \<open>The state of the hook\<close>

record 'm state =
  apiKeyMap :: "string \<rightharpoonup> jsval"
  preferredModelMap :: "string \<rightharpoonup> jsval"
  selectedProvider :: string
  apiKey :: jsval
  modelId :: jsval
  model :: 'm

text \<open>The state of the first render: the initial values of the \<open>useState\<close> cells.
  \<open>providers[0].name\<close> throws on the empty list.\<close>

definition initial_state :: "'m descriptor list \<Rightarrow> options option \<Rightarrow> js_error + 'm state" where
  "initial_state providers opts =
     (case providers of
        [] \<Rightarrow> Inl TypeError
      | p0 # _ \<Rightarrow>
          (case getModel (providerMap providers) (modelType_of opts)
                  (name p0) (Str []) (index0 (models p0)) of
             Inl e \<Rightarrow> Inl e
           | Inr m \<Rightarrow>
               Inr \<lparr>apiKeyMap = Map.empty, preferredModelMap = Map.empty,
                    selectedProvider = name p0, apiKey = Str [],
                    modelId = index0 (models p0), model = m\<rparr>))"

text \<open>What a render returns. \<open>getModel()\<close> is the argument of \<open>useState\<close> and is
  evaluated in every render, so a render throws whenever \<open>getModel\<close> does.\<close>

record 'm hook_result =
  r_apiKey :: jsval
  r_modelId :: jsval
  r_selectedProvider :: string
  r_providerList :: "'m descriptor list"
  r_modelIdList :: "string list"
  r_model :: 'm

text \<open>\<open>providerMap.get(selectedProvider)?.models || []\<close>\<close>

definition modelIdList :: "'m descriptor list \<Rightarrow> string \<Rightarrow> string list" where
  "modelIdList providers sp =
     (case providerMap providers sp of None \<Rightarrow> [] | Some (_, ms) \<Rightarrow> ms)"

definition useModelPicker ::
  "'m descriptor list \<Rightarrow> options option \<Rightarrow> 'm state \<Rightarrow> js_error + 'm hook_result" where
  "useModelPicker providers opts s =
     (case getModel (providerMap providers) (modelType_of opts)
             (selectedProvider s) (apiKey s) (modelId s) of
        Inl e \<Rightarrow> Inl e
      | Inr _ \<Rightarrow>
          Inr \<lparr>r_apiKey = apiKey s, r_modelId = modelId s,
               r_selectedProvider = selectedProvider s, r_providerList = providers,
               r_modelIdList = modelIdList providers (selectedProvider s),
               r_model = model s\<rparr>)"

subsection \<open>The effects of the hook\<close>

text \<open>Where a run stopped when an exception escaped: in a render, or in one of the two
  effects of the hook that can throw.\<close>

datatype phase = Render | ModelEffect | RestoreEffect

text \<open>First effect, dependencies \<open>[apiKey, selectedProvider, modelId]\<close>: it rebuilds the
  model, and leaves it alone when the lookup gives no provider (\<open>if (provider)\<close>).
  Nothing catches what the constructor or the accessor throws.\<close>

definition model_effect ::
  "(string \<rightharpoonup> 'm entry) \<Rightarrow> ModelType \<Rightarrow> 'm state \<Rightarrow> 'm state \<Rightarrow> js_error + 'm state" where
  "model_effect pm mt cur pend =
     (case pm (selectedProvider cur) of
        None \<Rightarrow> Inr pend
      | Some (ctor, _) \<Rightarrow>
          (case ctor (apiKey cur) of
             Inl e \<Rightarrow> Inl e
           | Inr p \<Rightarrow>
               (case accessor mt p (modelId cur) of
                  Inl e \<Rightarrow> Inl e
                | Inr m \<Rightarrow> Inr (pend\<lparr>model := m\<rparr>))))"

text \<open>What an effect leaves in the queue of the setters: the state the next render finds
  when it has applied the queue, or the exception that render throws applying it.\<close>

datatype 's queued = Applied 's | Failing js_error

text \<open>Second effect, dependencies \<open>[selectedProvider]\<close>: \<open>setModelId\<close> is called with the
  remembered model id when that is truthy, else with
  \<open>providerMap.get(selectedProvider)!.models[0]\<close>, which throws on an unknown name; then
  \<open>setApiKey\<close> with the remembered key when that is truthy, else with the empty string.
  The next render applies the queue cell by cell in the order of the \<open>useState\<close> calls,
  the key before the model id.\<close>

definition restore_effect ::
  "(string \<rightharpoonup> 'm entry) \<Rightarrow> 'm state \<Rightarrow> 'm state \<Rightarrow> js_error + 'm state queued" where
  "restore_effect pm cur pend =
     (case (if truthy (js_get (preferredModelMap cur) (selectedProvider cur))
            then Inr (js_get (preferredModelMap cur) (selectedProvider cur))
            else (case pm (selectedProvider cur) of
                    None \<Rightarrow> Inl TypeError
                  | Some (_, ms) \<Rightarrow> Inr (Val (index0 ms)))) of
        Inl e \<Rightarrow> Inl e
      | Inr for_modelId \<Rightarrow>
          (let for_apiKey =
                 (if truthy (js_get (apiKeyMap cur) (selectedProvider cur))
                  then js_get (apiKeyMap cur) (selectedProvider cur)
                  else Val (Str []))
           in Inr (case set_state for_apiKey (apiKey pend) of
                     Inl e \<Rightarrow> Failing e
                   | Inr k \<Rightarrow>
                       (case set_state for_modelId (modelId pend) of
                          Inl e \<Rightarrow> Failing e
                        | Inr m \<Rightarrow> Applied (pend\<lparr>apiKey := k, modelId := m\<rparr>)))))"

text \<open>Third and fourth effect, dependencies \<open>[apiKey]\<close> and \<open>[modelId]\<close>: the updater
  \<open>(prev) => ({ ...prev, [selectedProvider]: apiKey })\<close> reads the pending map, and the
  key and the value come from the render.\<close>

definition persist_key_effect :: "'m state \<Rightarrow> 'm state \<Rightarrow> 'm state" where
  "persist_key_effect cur pend =
     pend\<lparr>apiKeyMap := (apiKeyMap pend)(selectedProvider cur \<mapsto> apiKey cur)\<rparr>"

definition persist_model_effect :: "'m state \<Rightarrow> 'm state \<Rightarrow> 'm state" where
  "persist_model_effect cur pend =
     pend\<lparr>preferredModelMap := (preferredModelMap pend)(selectedProvider cur \<mapsto> modelId cur)\<rparr>"

text \<open>A dependency changed since the last committed render; on mount every effect runs.\<close>

definition changed :: "('s \<Rightarrow> 'a) \<Rightarrow> 's option \<Rightarrow> 's \<Rightarrow> bool" where
  "changed f prev cur = (case prev of None \<Rightarrow> True | Some p \<Rightarrow> f p \<noteq> f cur)"

definition model_deps_changed :: "'m state option \<Rightarrow> 'm state \<Rightarrow> bool" where
  "model_deps_changed prev cur =
     (changed apiKey prev cur \<or> changed selectedProvider prev cur \<or> changed modelId prev cur)"

text \<open>The effects of one commit, in the order of their declaration. When the queue the
  restore left makes the next render throw, the run ends in that render whatever the
  last two effects, which cannot throw, add to the queue.\<close>

definition hook_effects ::
  "(string \<rightharpoonup> 'm entry) \<Rightarrow> ModelType \<Rightarrow> 'm state option \<Rightarrow> 'm state \<Rightarrow> 'm state
     \<Rightarrow> (phase \<times> js_error) + 'm state" where
  "hook_effects pm mt prev cur pend =
     (case (if model_deps_changed prev cur then model_effect pm mt cur pend else Inr pend) of
        Inl e \<Rightarrow> Inl (ModelEffect, e)
      | Inr pend1 \<Rightarrow>
          (case (if changed selectedProvider prev cur then restore_effect pm cur pend1
                 else Inr (Applied pend1)) of
             Inl e \<Rightarrow> Inl (RestoreEffect, e)
           | Inr (Failing e) \<Rightarrow> Inl (Render, e)
           | Inr (Applied pend2) \<Rightarrow>
               (let pend3 = (if changed apiKey prev cur then persist_key_effect cur pend2
                             else pend2);
                    pend4 = (if changed modelId prev cur then persist_model_effect cur pend3
                             else pend3)
                in Inr pend4)))"

subsection \<open>Render, commit, render again\<close>

datatype 's step = Crash phase js_error | Quiet | Next 's

datatype 's outcome = Crashed phase js_error | OutOfFuel | Settled 's

text \<open>One render and its commit. A render that throws commits nothing, so none of its
  effects run. A render none of whose effects is triggered ends the cycle. A commit
  whose queue makes the next render throw ends the run in that render.\<close>

definition hook_step ::
  "'m descriptor list \<Rightarrow> options option \<Rightarrow> 'm state option \<Rightarrow> 'm state \<Rightarrow> 'm state step" where
  "hook_step providers opts prev cur =
     (case useModelPicker providers opts cur of
        Inl e \<Rightarrow> Crash Render e
      | Inr _ \<Rightarrow>
          if \<not> model_deps_changed prev cur then Quiet
          else (case hook_effects (providerMap providers) (modelType_of opts) prev cur cur of
                  Inl (ph, e) \<Rightarrow> Crash ph e
                | Inr cur' \<Rightarrow> Next cur'))"

fun hook_run ::
  "nat \<Rightarrow> 'm descriptor list \<Rightarrow> options option \<Rightarrow> 'm state option \<Rightarrow> 'm state
     \<Rightarrow> 'm state outcome" where
  "hook_run 0 providers opts prev cur = OutOfFuel"
| "hook_run (Suc n) providers opts prev cur =
     (case hook_step providers opts prev cur of
        Crash ph e \<Rightarrow> Crashed ph e
      | Quiet \<Rightarrow> Settled cur
      | Next cur' \<Rightarrow> hook_run n providers opts (Some cur) cur')"

text \<open>The runs of the first effect in the commits of a run, in order. A commit of the hook
  that runs any effect runs the first one, whose dependencies are the three fields. An
  entry holds the three fields of the committed render, which the first effect read, and
  the model that the commit leaves in the cell of the model for the next render, which
  only the \<open>setModel\<close> of the first effect writes.\<close>

fun recomputations ::
  "nat \<Rightarrow> 'm descriptor list \<Rightarrow> options option \<Rightarrow> 'm state option \<Rightarrow> 'm state
     \<Rightarrow> (string \<times> jsval \<times> jsval \<times> 'm) list" where
  "recomputations 0 providers opts prev cur = []"
| "recomputations (Suc n) providers opts prev cur =
     (case hook_step providers opts prev cur of
        Crash ph e \<Rightarrow> []
      | Quiet \<Rightarrow> []
      | Next cur' \<Rightarrow>
          (selectedProvider cur, apiKey cur, modelId cur, model cur')
            # recomputations n providers opts (Some cur) cur')"

text \<open>Mounting: the first render, then its effects, all of which run.\<close>

definition mount :: "nat \<Rightarrow> 'm descriptor list \<Rightarrow> options option \<Rightarrow> 'm state outcome" where
  "mount n providers opts =
     (case initial_state providers opts of
        Inl e \<Rightarrow> Crashed Render e
      | Inr s0 \<Rightarrow> hook_run n providers opts None s0)"

text \<open>The three setters the hook returns, called with strings. Each stores its argument
  with no check. React
  compares the new value of a cell with the old one, and a setter called with the value
  the cell already holds schedules no render.\<close>

datatype action = SetApiKey string | SetModelId string | SetSelectedProvider string

fun apply_action :: "action \<Rightarrow> 'm state \<Rightarrow> 'm state" where
  "apply_action (SetApiKey v) s = s\<lparr>apiKey := Str v\<rparr>"
| "apply_action (SetModelId v) s = s\<lparr>modelId := Str v\<rparr>"
| "apply_action (SetSelectedProvider v) s = s\<lparr>selectedProvider := v\<rparr>"

fun unchanged :: "action \<Rightarrow> 'm state \<Rightarrow> bool" where
  "unchanged (SetApiKey v) s = (apiKey s = Str v)"
| "unchanged (SetModelId v) s = (modelId s = Str v)"
| "unchanged (SetSelectedProvider v) s = (selectedProvider s = v)"

definition hook_dispatch ::
  "nat \<Rightarrow> 'm descriptor list \<Rightarrow> options option \<Rightarrow> action \<Rightarrow> 'm state \<Rightarrow> 'm state outcome" where
  "hook_dispatch n providers opts a s =
     (if unchanged a s then Settled s
      else hook_run n providers opts (Some s) (apply_action a s))"

text \<open>A sequence of setter calls, each settled before the next.\<close>

fun hook_dispatches ::
  "nat \<Rightarrow> 'm descriptor list \<Rightarrow> options option \<Rightarrow> action list \<Rightarrow> 'm state \<Rightarrow> 'm state outcome" where
  "hook_dispatches n providers opts [] s = Settled s"
| "hook_dispatches n providers opts (a # as) s =
     (case hook_dispatch n providers opts a s of
        Settled s' \<Rightarrow> hook_dispatches n providers opts as s'
      | Crashed ph e \<Rightarrow> Crashed ph e
      | OutOfFuel \<Rightarrow> OutOfFuel)"

subsection \<open>The component \<open>ModelPicker\<close>\<close>

text \<open>The component adds one state cell to those of the hook, the toggle between the
  dropdown and the text input.\<close>

record 'm picker_state =
  hook :: "'m state"
  useCustomModelInput :: bool

text \<open>Effect with dependencies \<open>[modelId]\<close>:
  \<open>if (!modelIdList.includes(modelId)) setUseCustomModelInput(true); else ...(false)\<close>\<close>

definition custom_effect ::
  "'m descriptor list \<Rightarrow> 'm picker_state \<Rightarrow> 'm picker_state \<Rightarrow> 'm picker_state" where
  "custom_effect providers cur pend =
     (if \<not> js_includes (modelIdList providers (selectedProvider (hook cur))) (modelId (hook cur))
      then pend\<lparr>useCustomModelInput := True\<rparr>
      else pend\<lparr>useCustomModelInput := False\<rparr>)"

text \<open>Effect with dependencies \<open>[useCustomModelInput]\<close>:
  \<open>if (!useCustomModelInput) setModelId(modelIdList[0])\<close>\<close>

definition snap_effect ::
  "'m descriptor list \<Rightarrow> 'm picker_state \<Rightarrow> 'm picker_state \<Rightarrow> 'm picker_state" where
  "snap_effect providers cur pend =
     (if \<not> useCustomModelInput cur
      then pend\<lparr>hook := (hook pend)
             \<lparr>modelId := index0 (modelIdList providers (selectedProvider (hook cur)))\<rparr>\<rparr>
      else pend)"

definition picker_deps_changed :: "'m picker_state option \<Rightarrow> 'm picker_state \<Rightarrow> bool" where
  "picker_deps_changed prev cur =
     (model_deps_changed (map_option hook prev) (hook cur)
      \<or> changed useCustomModelInput prev cur)"

text \<open>One commit of the component: the effects of the hook, which it calls first, then
  its own two.\<close>

definition picker_effects ::
  "'m descriptor list \<Rightarrow> options option \<Rightarrow> 'm picker_state option \<Rightarrow> 'm picker_state
     \<Rightarrow> 'm picker_state \<Rightarrow> (phase \<times> js_error) + 'm picker_state" where
  "picker_effects providers opts prev cur pend =
     (case hook_effects (providerMap providers) (modelType_of opts)
             (map_option hook prev) (hook cur) (hook pend) of
        Inl e \<Rightarrow> Inl e
      | Inr h \<Rightarrow>
          (let pend1 = pend\<lparr>hook := h\<rparr>;
               pend2 = (if changed (\<lambda>s. modelId (hook s)) prev cur
                        then custom_effect providers cur pend1 else pend1);
               pend3 = (if changed useCustomModelInput prev cur
                        then snap_effect providers cur pend2 else pend2)
           in Inr pend3))"

definition picker_step ::
  "'m descriptor list \<Rightarrow> options option \<Rightarrow> 'm picker_state option \<Rightarrow> 'm picker_state
     \<Rightarrow> 'm picker_state step" where
  "picker_step providers opts prev cur =
     (case useModelPicker providers opts (hook cur) of
        Inl e \<Rightarrow> Crash Render e
      | Inr _ \<Rightarrow>
          if \<not> picker_deps_changed prev cur then Quiet
          else (case picker_effects providers opts prev cur cur of
                  Inl (ph, e) \<Rightarrow> Crash ph e
                | Inr cur' \<Rightarrow> Next cur'))"

fun picker_run ::
  "nat \<Rightarrow> 'm descriptor list \<Rightarrow> options option \<Rightarrow> 'm picker_state option \<Rightarrow> 'm picker_state
     \<Rightarrow> 'm picker_state outcome" where
  "picker_run 0 providers opts prev cur = OutOfFuel"
| "picker_run (Suc n) providers opts prev cur =
     (case picker_step providers opts prev cur of
        Crash ph e \<Rightarrow> Crashed ph e
      | Quiet \<Rightarrow> Settled cur
      | Next cur' \<Rightarrow> picker_run n providers opts (Some cur) cur')"

text \<open>\<open>useState(false)\<close> for the toggle, on top of the first render of the hook.\<close>

definition picker_mount ::
  "nat \<Rightarrow> 'm descriptor list \<Rightarrow> options option \<Rightarrow> 'm picker_state outcome" where
  "picker_mount n providers opts =
     (case initial_state providers opts of
        Inl e \<Rightarrow> Crashed Render e
      | Inr s0 \<Rightarrow>
          picker_run n providers opts None \<lparr>hook = s0, useCustomModelInput = False\<rparr>)"

text \<open>The events of the default interface: the three inputs, forwarded to the setters of
  the hook, and a click on the toggle, \<open>setUseCustomModelInput(!useCustomModelInput)\<close>.
  The text input of custom mode sends any string to \<open>setModelId\<close>; the dropdown of list
  mode sends one of the listed model ids.\<close>

datatype event = Input action | ToggleClick

fun apply_event :: "event \<Rightarrow> 'm picker_state \<Rightarrow> 'm picker_state" where
  "apply_event (Input a) s = s\<lparr>hook := apply_action a (hook s)\<rparr>"
| "apply_event ToggleClick s = s\<lparr>useCustomModelInput := \<not> useCustomModelInput s\<rparr>"

fun event_unchanged :: "event \<Rightarrow> 'm picker_state \<Rightarrow> bool" where
  "event_unchanged (Input a) s = unchanged a (hook s)"
| "event_unchanged ToggleClick s = False"

definition picker_dispatch ::
  "nat \<Rightarrow> 'm descriptor list \<Rightarrow> options option \<Rightarrow> event \<Rightarrow> 'm picker_state
     \<Rightarrow> 'm picker_state outcome" where
  "picker_dispatch n providers opts ev s =
     (if event_unchanged ev s then Settled s
      else picker_run n providers opts (Some s) (apply_event ev s))"

fun picker_dispatches ::
  "nat \<Rightarrow> 'm descriptor list \<Rightarrow> options option \<Rightarrow> event list \<Rightarrow> 'm picker_state
     \<Rightarrow> 'm picker_state outcome" where
  "picker_dispatches n providers opts [] s = Settled s"
| "picker_dispatches n providers opts (ev # evs) s =
     (case picker_dispatch n providers opts ev s of
        Settled s' \<Rightarrow> picker_dispatches n providers opts evs s'
      | Crashed ph e \<Rightarrow> Crashed ph e
      | OutOfFuel \<Rightarrow> OutOfFuel)"


subsection \<open>Concrete lists of providers\<close>

text \<open>Two providers in the shape of the README's example. The model they build records
  what it was built from. The constructor of \<open>echo_provider\<close> accepts every key; that of
  \<open>strict_provider\<close> throws on the key \<open>bad\<close>.\<close>

definition echo_provider ::
  "string \<Rightarrow> jsval \<Rightarrow> js_error + (string \<times> jsval \<times> jsval) Provider" where
  "echo_provider nm k =
     Inr \<lparr>languageModel = (\<lambda>mid. Inr (nm, k, mid)),
          textEmbeddingModel = (\<lambda>mid. Inr (nm, k, mid)),
          imageModel = (\<lambda>mid. Inr (nm, k, mid))\<rparr>"

definition strict_provider ::
  "string \<Rightarrow> jsval \<Rightarrow> js_error + (string \<times> jsval \<times> jsval) Provider" where
  "strict_provider nm k =
     (if k = Str ''bad'' then Inl (Thrown ''invalid key'') else echo_provider nm k)"

definition example_providers :: "(string \<times> jsval \<times> jsval) descriptor list" where
  "example_providers =
     [\<lparr>provider = echo_provider ''OpenAI'', name = ''OpenAI'',
       models = [''gpt-4o'', ''o4-mini'']\<rparr>,
      \<lparr>provider = echo_provider ''Google'', name = ''Google'',
       models = [''gemini-2.0-flash'']\<rparr>]"

definition strict_providers :: "(string \<times> jsval \<times> jsval) descriptor list" where
  "strict_providers =
     [\<lparr>provider = strict_provider ''OpenAI'', name = ''OpenAI'',
       models = [''gpt-4o'', ''o4-mini'']\<rparr>]"

text \<open>Lists with providers named like properties that every object inherits.\<close>

definition inherited_name_providers :: "(string \<times> jsval \<times> jsval) descriptor list" where
  "inherited_name_providers =
     [\<lparr>provider = echo_provider ''OpenAI'', name = ''OpenAI'',
       models = [''gpt-4o'', ''o4-mini'']\<rparr>,
      \<lparr>provider = echo_provider ''constructor'', name = ''constructor'',
       models = [''c-1'']\<rparr>,
      \<lparr>provider = echo_provider ''valueOf'', name = ''valueOf'',
       models = [''v-1'']\<rparr>]"

definition toString_providers :: "(string \<times> jsval \<times> jsval) descriptor list" where
  "toString_providers =
     [\<lparr>provider = echo_provider ''toString'', name = ''toString'', models = [''t-1'']\<rparr>]"

subsection \<open>Sessions and what can be observed of them\<close>

text \<open>A session of the hook: it is mounted, then the setters are called one after the
  other. \<open>observe\<close> reads the three values the hook returns, \<open>remembered\<close> the entries of
  the two dictionaries for one provider name, \<open>crash_of\<close> the exception that ended the run.\<close>

definition session ::
  "nat \<Rightarrow> 'm descriptor list \<Rightarrow> options option \<Rightarrow> action list \<Rightarrow> 'm state outcome" where
  "session n providers opts as =
     (case mount n providers opts of
        Settled s \<Rightarrow> hook_dispatches n providers opts as s
      | Crashed ph e \<Rightarrow> Crashed ph e
      | OutOfFuel \<Rightarrow> OutOfFuel)"

definition observe :: "'m state outcome \<Rightarrow> (string \<times> jsval \<times> jsval) option" where
  "observe oc =
     (case oc of Settled s \<Rightarrow> Some (selectedProvider s, apiKey s, modelId s) | _ \<Rightarrow> None)"

definition remembered ::
  "'m state outcome \<Rightarrow> string \<Rightarrow> (jsval option \<times> jsval option) option" where
  "remembered oc p =
     (case oc of Settled s \<Rightarrow> Some (apiKeyMap s p, preferredModelMap s p) | _ \<Rightarrow> None)"

definition crash_of :: "'s outcome \<Rightarrow> (phase \<times> js_error) option" where
  "crash_of oc = (case oc of Crashed ph e \<Rightarrow> Some (ph, e) | _ \<Rightarrow> None)"

text \<open>The runs of the first effect that one setter call causes, and those of the setter
  call that follows a session.\<close>

definition dispatch_recomputations ::
  "nat \<Rightarrow> 'm descriptor list \<Rightarrow> options option \<Rightarrow> action \<Rightarrow> 'm state
     \<Rightarrow> (string \<times> jsval \<times> jsval \<times> 'm) list" where
  "dispatch_recomputations n providers opts a s =
     (if unchanged a s then []
      else recomputations n providers opts (Some s) (apply_action a s))"

definition recomputations_after ::
  "nat \<Rightarrow> 'm descriptor list \<Rightarrow> options option \<Rightarrow> action list \<Rightarrow> action
     \<Rightarrow> (string \<times> jsval \<times> jsval \<times> 'm) list" where
  "recomputations_after n providers opts as a =
     (case session n providers opts as of
        Settled s \<Rightarrow> dispatch_recomputations n providers opts a s
      | _ \<Rightarrow> [])"

text \<open>The same for the component, whose observation adds the toggle.\<close>

definition picker_session ::
  "nat \<Rightarrow> 'm descriptor list \<Rightarrow> options option \<Rightarrow> event list \<Rightarrow> 'm picker_state outcome" where
  "picker_session n providers opts evs =
     (case picker_mount n providers opts of
        Settled s \<Rightarrow> picker_dispatches n providers opts evs s
      | Crashed ph e \<Rightarrow> Crashed ph e
      | OutOfFuel \<Rightarrow> OutOfFuel)"

definition picker_observe ::
  "'m picker_state outcome \<Rightarrow> (string \<times> jsval \<times> jsval \<times> bool) option" where
  "picker_observe oc =
     (case oc of
        Settled s \<Rightarrow>
          Some (selectedProvider (hook s), apiKey (hook s), modelId (hook s),
                useCustomModelInput s)
      | _ \<Rightarrow> None)"

subsection \<open>Notions used to state the properties\<close>

text \<open>The assumption on the caller's code under which a run cannot be ended by it: every
  constructor in the provider map returns a provider for every key, and the accessor
  selected by the options returns a model for every model id.\<close>

definition providers_ok :: "'m descriptor list \<Rightarrow> options option \<Rightarrow> bool" where
  "providers_ok providers opts =
     (\<forall>sp ctor ms. providerMap providers sp = Some (ctor, ms) \<longrightarrow>
        (\<forall>k. \<exists>p. ctor k = Inr p \<and> (\<forall>mid. \<exists>m. accessor (modelType_of opts) p mid = Inr m)))"

text \<open>The two values the second effect stores for a provider name that names no inherited
  property, read off \<open>restore_effect\<close>: the remembered key when it is truthy or else the
  empty string, and the remembered model id when it is truthy or else the first element
  of the model list.\<close>

definition restored_apiKey :: "(string \<rightharpoonup> jsval) \<Rightarrow> string \<Rightarrow> jsval" where
  "restored_apiKey akm sp =
     (case akm sp of None \<Rightarrow> Str [] | Some k \<Rightarrow> if truthy (Val k) then k else Str [])"

definition restored_modelId :: "(string \<rightharpoonup> jsval) \<Rightarrow> string list \<Rightarrow> string \<Rightarrow> jsval" where
  "restored_modelId pmm ms sp =
     (case pmm sp of None \<Rightarrow> index0 ms | Some v \<Rightarrow> if truthy (Val v) then v else index0 ms)"

text \<open>An invariant of the settled states whose selected provider names no inherited
  property: the selected provider is known, the current key is the one a restore would
  give, so is the current model id when it is truthy, and the model is the one built from
  the current fields.\<close>

definition consistent :: "'m descriptor list \<Rightarrow> options option \<Rightarrow> 'm state \<Rightarrow> bool" where
  "consistent providers opts s =
     (\<exists>ctor ms. providerMap providers (selectedProvider s) = Some (ctor, ms)
        \<and> apiKey s = restored_apiKey (apiKeyMap s) (selectedProvider s)
        \<and> (truthy (Val (modelId s)) \<longrightarrow>
              modelId s = restored_modelId (preferredModelMap s) ms (selectedProvider s))
        \<and> getModel (providerMap providers) (modelType_of opts)
              (selectedProvider s) (apiKey s) (modelId s) = Inr (model s))"

text \<open>The states a caller of the hook can be in: after mounting, after any settled call.\<close>

inductive reachable :: "'m descriptor list \<Rightarrow> options option \<Rightarrow> 'm state \<Rightarrow> bool"
  for providers :: "'m descriptor list" and opts :: "options option" where
  mounted: "mount n providers opts = Settled s \<Longrightarrow> reachable providers opts s"
| dispatched: "reachable providers opts s \<Longrightarrow> hook_dispatch n providers opts a s = Settled s'
     \<Longrightarrow> reachable providers opts s'"

text \<open>The calls that edit a field of the selected provider, as opposed to a switch.\<close>

fun is_edit :: "action \<Rightarrow> bool" where
  "is_edit (SetSelectedProvider v) = False"
| "is_edit (SetApiKey v) = True"
| "is_edit (SetModelId v) = True"

text \<open>A provider list whose only provider lists no model; the state of the hook mounted
  on \<open>example_providers\<close>; and that state once the setter has stored a provider name that
  the list does not have.\<close>

definition bare_providers :: "(string \<times> jsval \<times> jsval) descriptor list" where
  "bare_providers = [\<lparr>provider = echo_provider ''Local'', name = ''Local'', models = []\<rparr>]"

definition example_state :: "(string \<times> jsval \<times> jsval) state" where
  "example_state =
     \<lparr>apiKeyMap = [''OpenAI'' \<mapsto> Str []],
      preferredModelMap = [''OpenAI'' \<mapsto> Str ''gpt-4o''],
      selectedProvider = ''OpenAI'', apiKey = Str [], modelId = Str ''gpt-4o'',
      model = (''OpenAI'', Str [], Str ''gpt-4o'')\<rparr>"

definition unknown_state :: "(string \<times> jsval \<times> jsval) state" where
  "unknown_state = apply_action (SetSelectedProvider ''Nope'') example_state"

section \<open>Properties of the cycle\<close>

subsection \<open>The provider map\<close>

text \<open>The map holds, for every name of the list, the last descriptor of that name, and
  nothing else.\<close>

lemma providerMap_foldl:
  "foldl (\<lambda>pm p. pm(name p \<mapsto> (provider p, models p))) m ps
     = m ++ map_of (rev (map (\<lambda>p. (name p, (provider p, models p))) ps))"
  by (induction ps arbitrary: m) (simp_all add: map_add_upd_left)

lemma providerMap_map_of:
  "providerMap ps = map_of (rev (map (\<lambda>p. (name p, (provider p, models p))) ps))"
  by (simp add: providerMap_def providerMap_foldl)

lemma providerMap_None: "providerMap ps n = None \<longleftrightarrow> n \<notin> name ` set ps"
  by (simp add: providerMap_map_of map_of_eq_None_iff image_image)

lemma providerMap_distinct:
  "distinct (map name ps) \<Longrightarrow> p \<in> set ps \<Longrightarrow> providerMap ps (name p) = Some (provider p, models p)"
  unfolding providerMap_map_of
  by (rule map_of_is_SomeI) (auto simp: rev_map[symmetric] distinct_map comp_def)

subsection \<open>Effects on a known provider\<close>

lemma getModel_ok:
  assumes "providers_ok ps opts" "providerMap ps sp = Some (ctor, ms)"
  shows "\<exists>m. getModel (providerMap ps) (modelType_of opts) sp k mid = Inr m"
proof -
  from assms obtain p where p: "ctor k = Inr p"
    "\<forall>mid. \<exists>m. accessor (modelType_of opts) p mid = Inr m"
    unfolding providers_ok_def by blast
  then obtain m where "accessor (modelType_of opts) p mid = Inr m" by blast
  with p assms(2) show ?thesis by (simp add: getModel_def)
qed

lemma model_effect_getModel:
  "getModel pm mt (selectedProvider cur) (apiKey cur) (modelId cur) = Inr m
     \<Longrightarrow> model_effect pm mt cur pend = Inr (pend\<lparr>model := m\<rparr>)"
  by (auto simp: getModel_def model_effect_def split: option.splits sum.splits prod.splits)

text \<open>For a provider name that names no inherited property, a read of a dictionary gives
  its entry or \<open>undefined\<close>, and the restore stores the two values of \<open>restored_apiKey\<close> and
  \<open>restored_modelId\<close>.\<close>

lemma js_get_own:
  "inherited key = None \<Longrightarrow> js_get obj key = (case obj key of None \<Rightarrow> Val Undefined | Some v \<Rightarrow> Val v)"
  by (simp add: js_get_def split: option.splits)

lemma restore_effect_known:
  "pm (selectedProvider cur) = Some (ctor, ms) \<Longrightarrow> inherited (selectedProvider cur) = None \<Longrightarrow>
   restore_effect pm cur pend =
     Inr (Applied (pend\<lparr>modelId := restored_modelId (preferredModelMap cur) ms (selectedProvider cur),
              apiKey := restored_apiKey (apiKeyMap cur) (selectedProvider cur)\<rparr>))"
  by (auto simp: restore_effect_def restored_modelId_def restored_apiKey_def js_get_own
        set_state_def truthy_def Let_def split: option.splits)

lemma restore_effect_only_fails_unknown:
  "pm (selectedProvider cur) = Some entry \<Longrightarrow> \<exists>q. restore_effect pm cur pend = Inr q"
  by (cases entry) (simp add: restore_effect_def Let_def)

subsection \<open>Single steps of the hook\<close>

text \<open>With the selected provider unchanged, a step is quiet when neither the key nor the
  model id changed, and else rebuilds the model and persists what changed. With the
  selected provider changed, or on mount, it also restores the two fields.\<close>

lemma hook_step_quiet:
  assumes "providers_ok ps opts" "providerMap ps (selectedProvider c) = Some (ctor, ms)"
    and "selectedProvider p = selectedProvider c" "apiKey p = apiKey c" "modelId p = modelId c"
  shows "hook_step ps opts (Some p) c = Quiet"
proof -
  obtain m where "getModel (providerMap ps) (modelType_of opts) (selectedProvider c) (apiKey c) (modelId c) = Inr m"
    using getModel_ok[OF assms(1,2)] by blast
  then show ?thesis using assms(3-5)
    by (simp add: hook_step_def useModelPicker_def model_deps_changed_def changed_def)
qed

lemma hook_effects_edit:
  assumes m: "getModel pm mt (selectedProvider c) (apiKey c) (modelId c) = Inr m"
    and "selectedProvider p = selectedProvider c" "apiKey p \<noteq> apiKey c \<or> modelId p \<noteq> modelId c"
  shows "hook_effects pm mt (Some p) c pend =
     Inr (pend\<lparr>model := m,
        apiKeyMap := (if apiKey p = apiKey c then apiKeyMap pend
                       else (apiKeyMap pend)(selectedProvider c \<mapsto> apiKey c)),
        preferredModelMap := (if modelId p = modelId c then preferredModelMap pend
                       else (preferredModelMap pend)(selectedProvider c \<mapsto> modelId c))\<rparr>)"
  using assms(2,3)
  by (simp add: hook_effects_def model_deps_changed_def changed_def
        model_effect_getModel[OF m] persist_key_effect_def persist_model_effect_def Let_def)


lemma hook_step_edit:
  assumes m: "getModel (providerMap ps) (modelType_of opts) (selectedProvider c) (apiKey c) (modelId c) = Inr m"
    and "selectedProvider p = selectedProvider c" "apiKey p \<noteq> apiKey c \<or> modelId p \<noteq> modelId c"
  shows "hook_step ps opts (Some p) c =
     Next (c\<lparr>model := m,
        apiKeyMap := (if apiKey p = apiKey c then apiKeyMap c
                       else (apiKeyMap c)(selectedProvider c \<mapsto> apiKey c)),
        preferredModelMap := (if modelId p = modelId c then preferredModelMap c
                       else (preferredModelMap c)(selectedProvider c \<mapsto> modelId c))\<rparr>)"
proof -
  have "model_deps_changed (Some p) c"
    using assms(3) by (auto simp: model_deps_changed_def changed_def)
  then show ?thesis
    by (simp add: hook_step_def useModelPicker_def m hook_effects_edit[OF m assms(2,3)])
qed

subsection \<open>Runs of the hook\<close>

text \<open>Two renders settle an edit, three settle a switch or a mount.\<close>

lemma hook_run_same_provider:
  assumes "providers_ok ps opts" "providerMap ps (selectedProvider c) = Some (ctor, ms)"
    and "selectedProvider p = selectedProvider c"
  shows "\<exists>s'. hook_run (Suc (Suc n)) ps opts (Some p) c = Settled s'
     \<and> selectedProvider s' = selectedProvider c \<and> apiKey s' = apiKey c \<and> modelId s' = modelId c
     \<and> apiKeyMap s' = (if apiKey p = apiKey c then apiKeyMap c
                       else (apiKeyMap c)(selectedProvider c \<mapsto> apiKey c))
     \<and> preferredModelMap s' = (if modelId p = modelId c then preferredModelMap c
                       else (preferredModelMap c)(selectedProvider c \<mapsto> modelId c))
     \<and> (if apiKey p = apiKey c \<and> modelId p = modelId c then model s' = model c
         else getModel (providerMap ps) (modelType_of opts) (selectedProvider c) (apiKey c) (modelId c) = Inr (model s'))"
proof (cases "apiKey p = apiKey c \<and> modelId p = modelId c")
  case True
  then have q: "hook_step ps opts (Some p) c = Quiet"
    using hook_step_quiet[OF assms] by blast
  have "hook_run (Suc (Suc n)) ps opts (Some p) c = Settled c"
    by (simp add: q)
  with True show ?thesis by auto
next
  case False
  obtain m where m: "getModel (providerMap ps) (modelType_of opts) (selectedProvider c) (apiKey c) (modelId c) = Inr m"
    using getModel_ok[OF assms(1,2)] by blast
  define c' where "c' = c\<lparr>model := m,
        apiKeyMap := (if apiKey p = apiKey c then apiKeyMap c
                       else (apiKeyMap c)(selectedProvider c \<mapsto> apiKey c)),
        preferredModelMap := (if modelId p = modelId c then preferredModelMap c
                       else (preferredModelMap c)(selectedProvider c \<mapsto> modelId c))\<rparr>"
  have s1: "hook_step ps opts (Some p) c = Next c'"
    unfolding c'_def using hook_step_edit[OF m assms(3)] False by blast
  have f: "selectedProvider c' = selectedProvider c" "apiKey c' = apiKey c" "modelId c' = modelId c"
    by (simp_all add: c'_def)
  have s2: "hook_step ps opts (Some c) c' = Quiet"
    by (rule hook_step_quiet[OF assms(1)]) (simp_all add: f assms(2))
  have "hook_run (Suc (Suc n)) ps opts (Some p) c = Settled c'"
    by (simp add: s1 s2)
  moreover have "apiKeyMap c' = (if apiKey p = apiKey c then apiKeyMap c
                       else (apiKeyMap c)(selectedProvider c \<mapsto> apiKey c))"
    "preferredModelMap c' = (if modelId p = modelId c then preferredModelMap c
                       else (preferredModelMap c)(selectedProvider c \<mapsto> modelId c))"
    "model c' = m"
    by (simp_all add: c'_def)
  ultimately show ?thesis using f m False by auto
qed


lemma hook_step_switch:
  assumes m: "getModel (providerMap ps) (modelType_of opts) (selectedProvider c) (apiKey c) (modelId c) = Inr m"
    and known: "providerMap ps (selectedProvider c) = Some (ctor, ms)"
    and inh: "inherited (selectedProvider c) = None"
    and sw: "changed selectedProvider prev c"
  shows "hook_step ps opts prev c =
     Next (c\<lparr>model := m,
        modelId := restored_modelId (preferredModelMap c) ms (selectedProvider c),
        apiKey := restored_apiKey (apiKeyMap c) (selectedProvider c),
        apiKeyMap := (if changed apiKey prev c then (apiKeyMap c)(selectedProvider c \<mapsto> apiKey c)
                      else apiKeyMap c),
        preferredModelMap := (if changed modelId prev c
                      then (preferredModelMap c)(selectedProvider c \<mapsto> modelId c)
                      else preferredModelMap c)\<rparr>)"
proof -
  have d: "model_deps_changed prev c"
    using sw by (simp add: model_deps_changed_def)
  have "hook_effects (providerMap ps) (modelType_of opts) prev c c =
     Inr (c\<lparr>model := m,
        modelId := restored_modelId (preferredModelMap c) ms (selectedProvider c),
        apiKey := restored_apiKey (apiKeyMap c) (selectedProvider c),
        apiKeyMap := (if changed apiKey prev c then (apiKeyMap c)(selectedProvider c \<mapsto> apiKey c)
                      else apiKeyMap c),
        preferredModelMap := (if changed modelId prev c
                      then (preferredModelMap c)(selectedProvider c \<mapsto> modelId c)
                      else preferredModelMap c)\<rparr>)"
    by (simp add: hook_effects_def d sw model_effect_getModel[OF m] restore_effect_known[of "providerMap ps" c ctor ms, OF known inh]
        persist_key_effect_def persist_model_effect_def Let_def)
  then show ?thesis
    by (simp add: hook_step_def useModelPicker_def m d)
qed

lemma hook_run_switch:
  assumes ok: "providers_ok ps opts" and known: "providerMap ps (selectedProvider c) = Some (ctor, ms)"
    and inh: "inherited (selectedProvider c) = None"
    and sw: "changed selectedProvider prev c"
  shows "\<exists>s'. hook_run (Suc (Suc (Suc n))) ps opts prev c = Settled s'
     \<and> selectedProvider s' = selectedProvider c
     \<and> apiKey s' = restored_apiKey (apiKeyMap c) (selectedProvider c)
     \<and> modelId s' = restored_modelId (preferredModelMap c) ms (selectedProvider c)
     \<and> (\<forall>x. x \<noteq> selectedProvider c \<longrightarrow>
           apiKeyMap s' x = apiKeyMap c x \<and> preferredModelMap s' x = preferredModelMap c x)
     \<and> getModel (providerMap ps) (modelType_of opts) (selectedProvider s') (apiKey s') (modelId s')
           = Inr (model s')
     \<and> apiKey s' = restored_apiKey (apiKeyMap s') (selectedProvider s')
     \<and> (truthy (Val (modelId s')) \<longrightarrow>
           modelId s' = restored_modelId (preferredModelMap s') ms (selectedProvider s'))"
proof -
  obtain m where m: "getModel (providerMap ps) (modelType_of opts) (selectedProvider c) (apiKey c) (modelId c) = Inr m"
    using getModel_ok[OF ok known] by blast
  define c1 where "c1 = c\<lparr>model := m,
        modelId := restored_modelId (preferredModelMap c) ms (selectedProvider c),
        apiKey := restored_apiKey (apiKeyMap c) (selectedProvider c),
        apiKeyMap := (if changed apiKey prev c then (apiKeyMap c)(selectedProvider c \<mapsto> apiKey c)
                      else apiKeyMap c),
        preferredModelMap := (if changed modelId prev c
                      then (preferredModelMap c)(selectedProvider c \<mapsto> modelId c)
                      else preferredModelMap c)\<rparr>"
  have s1: "hook_step ps opts prev c = Next c1"
    unfolding c1_def by (rule hook_step_switch[OF m known inh sw])
  have f: "selectedProvider c1 = selectedProvider c"
    "apiKey c1 = restored_apiKey (apiKeyMap c) (selectedProvider c)"
    "modelId c1 = restored_modelId (preferredModelMap c) ms (selectedProvider c)"
    "model c1 = m"
    "\<And>x. x \<noteq> selectedProvider c \<Longrightarrow> apiKeyMap c1 x = apiKeyMap c x"
    "\<And>x. x \<noteq> selectedProvider c \<Longrightarrow> preferredModelMap c1 x = preferredModelMap c x"
    by (simp_all add: c1_def)
  have known1: "providerMap ps (selectedProvider c1) = Some (ctor, ms)"
    using known f(1) by simp
  obtain s' where s': "hook_run (Suc (Suc n)) ps opts (Some c) c1 = Settled s'"
    "selectedProvider s' = selectedProvider c1" "apiKey s' = apiKey c1" "modelId s' = modelId c1"
    "apiKeyMap s' = (if apiKey c = apiKey c1 then apiKeyMap c1
                       else (apiKeyMap c1)(selectedProvider c1 \<mapsto> apiKey c1))"
    "preferredModelMap s' = (if modelId c = modelId c1 then preferredModelMap c1
                       else (preferredModelMap c1)(selectedProvider c1 \<mapsto> modelId c1))"
    "if apiKey c = apiKey c1 \<and> modelId c = modelId c1 then model s' = model c1
         else getModel (providerMap ps) (modelType_of opts) (selectedProvider c1) (apiKey c1) (modelId c1) = Inr (model s')"
    using hook_run_same_provider[OF ok known1, of c n] f(1) by auto
  have run: "hook_run (Suc (Suc (Suc n))) ps opts prev c = Settled s'"
    using s1 s'(1) by simp
  have frame: "\<forall>x. x \<noteq> selectedProvider c \<longrightarrow>
           apiKeyMap s' x = apiKeyMap c x \<and> preferredModelMap s' x = preferredModelMap c x"
    using s'(5,6) f(1,5,6) by auto
  have mdl: "getModel (providerMap ps) (modelType_of opts) (selectedProvider s') (apiKey s') (modelId s')
           = Inr (model s')"
  proof (cases "apiKey c = apiKey c1 \<and> modelId c = modelId c1")
    case True
    then have "model s' = m" using s'(7) f(4) by simp
    then show ?thesis using m s'(2-4) f(1) True by simp
  next
    case False
    then show ?thesis using s'(2-4,7) by auto
  qed
  have g: "apiKeyMap c1 = (if changed apiKey prev c then (apiKeyMap c)(selectedProvider c \<mapsto> apiKey c)
                      else apiKeyMap c)"
    "preferredModelMap c1 = (if changed modelId prev c
                      then (preferredModelMap c)(selectedProvider c \<mapsto> modelId c)
                      else preferredModelMap c)"
    by (simp_all add: c1_def)
  have ck: "apiKey s' = restored_apiKey (apiKeyMap s') (selectedProvider s')"
  proof (cases "apiKey c = apiKey c1")
    case True
    then show ?thesis using s'(2,3,5) f(1,2) g(1)
      by (auto simp: restored_apiKey_def truthy_def split: option.splits if_splits jsval.splits)
  next
    case False
    then show ?thesis using s'(2,3,5) f(2)
      by (auto simp: restored_apiKey_def truthy_def split: option.splits if_splits jsval.splits)
  qed
  have cm: "truthy (Val (modelId s')) \<longrightarrow>
           modelId s' = restored_modelId (preferredModelMap s') ms (selectedProvider s')"
  proof (cases "modelId c = modelId c1")
    case True
    then show ?thesis using s'(2,4,6) f(1,3) g(2)
      by (auto simp: restored_modelId_def js_get_def)
  next
    case False
    then show ?thesis using s'(2,4,6) by (simp add: restored_modelId_def js_get_def)
  qed
  show ?thesis using run s'(2-4) f(1-3) frame mdl ck cm by auto
qed

lemma hook_run_mono:
  "hook_run n ps opts prev cur = Settled s \<Longrightarrow> hook_run (n + k) ps opts prev cur = Settled s"
proof (induction n arbitrary: prev cur)
  case 0
  then show ?case by simp
next
  case (Suc n)
  then show ?case by (cases "hook_step ps opts prev cur") auto
qed

subsection \<open>The three setters\<close>

lemma dispatch_SetApiKey_fields:
  assumes ok: "providers_ok ps opts" and k: "providerMap ps (selectedProvider s) = Some (ctor, ms)"
    and ne: "apiKey s \<noteq> Str v"
  shows "\<exists>s'. hook_dispatch (Suc (Suc n)) ps opts (SetApiKey v) s = Settled s'
     \<and> selectedProvider s' = selectedProvider s \<and> apiKey s' = Str v \<and> modelId s' = modelId s
     \<and> apiKeyMap s' = (apiKeyMap s)(selectedProvider s \<mapsto> Str v)
     \<and> preferredModelMap s' = preferredModelMap s
     \<and> getModel (providerMap ps) (modelType_of opts) (selectedProvider s) (Str v) (modelId s)
           = Inr (model s')"
proof -
  let ?c = "s\<lparr>apiKey := Str v\<rparr>"
  have k': "providerMap ps (selectedProvider ?c) = Some (ctor, ms)" using k by simp
  obtain s' where s': "hook_run (Suc (Suc n)) ps opts (Some s) ?c = Settled s'"
    "selectedProvider s' = selectedProvider ?c" "apiKey s' = apiKey ?c" "modelId s' = modelId ?c"
    "apiKeyMap s' = (if apiKey s = apiKey ?c then apiKeyMap ?c
                       else (apiKeyMap ?c)(selectedProvider ?c \<mapsto> apiKey ?c))"
    "preferredModelMap s' = (if modelId s = modelId ?c then preferredModelMap ?c
                       else (preferredModelMap ?c)(selectedProvider ?c \<mapsto> modelId ?c))"
    "if apiKey s = apiKey ?c \<and> modelId s = modelId ?c then model s' = model ?c
         else getModel (providerMap ps) (modelType_of opts) (selectedProvider ?c) (apiKey ?c) (modelId ?c) = Inr (model s')"
    using hook_run_same_provider[OF ok k', of s n] by auto
  have f: "selectedProvider s' = selectedProvider s" "apiKey s' = Str v" "modelId s' = modelId s"
    "apiKeyMap s' = (apiKeyMap s)(selectedProvider s \<mapsto> Str v)"
    "preferredModelMap s' = preferredModelMap s"
    "getModel (providerMap ps) (modelType_of opts) (selectedProvider s) (Str v) (modelId s) = Inr (model s')"
    using s'(2-7) ne by simp_all
  have "hook_dispatch (Suc (Suc n)) ps opts (SetApiKey v) s = Settled s'"
    using s'(1) ne by (simp add: hook_dispatch_def)
  then show ?thesis using f by blast
qed

lemma dispatch_SetModelId_fields:
  assumes ok: "providers_ok ps opts" and k: "providerMap ps (selectedProvider s) = Some (ctor, ms)"
    and ne: "modelId s \<noteq> Str v"
  shows "\<exists>s'. hook_dispatch (Suc (Suc n)) ps opts (SetModelId v) s = Settled s'
     \<and> selectedProvider s' = selectedProvider s \<and> apiKey s' = apiKey s \<and> modelId s' = Str v
     \<and> apiKeyMap s' = apiKeyMap s
     \<and> preferredModelMap s' = (preferredModelMap s)(selectedProvider s \<mapsto> Str v)
     \<and> getModel (providerMap ps) (modelType_of opts) (selectedProvider s) (apiKey s) (Str v)
           = Inr (model s')"
proof -
  let ?c = "s\<lparr>modelId := Str v\<rparr>"
  have k': "providerMap ps (selectedProvider ?c) = Some (ctor, ms)" using k by simp
  obtain s' where s': "hook_run (Suc (Suc n)) ps opts (Some s) ?c = Settled s'"
    "selectedProvider s' = selectedProvider ?c" "apiKey s' = apiKey ?c" "modelId s' = modelId ?c"
    "apiKeyMap s' = (if apiKey s = apiKey ?c then apiKeyMap ?c
                       else (apiKeyMap ?c)(selectedProvider ?c \<mapsto> apiKey ?c))"
    "preferredModelMap s' = (if modelId s = modelId ?c then preferredModelMap ?c
                       else (preferredModelMap ?c)(selectedProvider ?c \<mapsto> modelId ?c))"
    "if apiKey s = apiKey ?c \<and> modelId s = modelId ?c then model s' = model ?c
         else getModel (providerMap ps) (modelType_of opts) (selectedProvider ?c) (apiKey ?c) (modelId ?c) = Inr (model s')"
    using hook_run_same_provider[OF ok k', of s n] by auto
  have f: "selectedProvider s' = selectedProvider s" "apiKey s' = apiKey s" "modelId s' = Str v"
    "apiKeyMap s' = apiKeyMap s"
    "preferredModelMap s' = (preferredModelMap s)(selectedProvider s \<mapsto> Str v)"
    "getModel (providerMap ps) (modelType_of opts) (selectedProvider s) (apiKey s) (Str v) = Inr (model s')"
    using s'(2-7) ne by simp_all
  have "hook_dispatch (Suc (Suc n)) ps opts (SetModelId v) s = Settled s'"
    using s'(1) ne by (simp add: hook_dispatch_def)
  then show ?thesis using f by blast
qed

lemma dispatch_SetApiKey:
  assumes ok: "providers_ok ps opts" and c: "consistent ps opts s"
  shows "\<exists>s'. hook_dispatch (Suc (Suc n)) ps opts (SetApiKey v) s = Settled s'
     \<and> consistent ps opts s'
     \<and> selectedProvider s' = selectedProvider s \<and> apiKey s' = Str v \<and> modelId s' = modelId s
     \<and> apiKeyMap s' = (if apiKey s = Str v then apiKeyMap s
                        else (apiKeyMap s)(selectedProvider s \<mapsto> Str v))
     \<and> preferredModelMap s' = preferredModelMap s"
proof (cases "apiKey s = Str v")
  case True
  then show ?thesis using c by (simp add: hook_dispatch_def)
next
  case False
  from c obtain ctor ms where k: "providerMap ps (selectedProvider s) = Some (ctor, ms)"
    and cm: "truthy (Val (modelId s)) \<longrightarrow>
              modelId s = restored_modelId (preferredModelMap s) ms (selectedProvider s)"
    unfolding consistent_def by blast
  obtain s' where s': "hook_dispatch (Suc (Suc n)) ps opts (SetApiKey v) s = Settled s'"
    "selectedProvider s' = selectedProvider s" "apiKey s' = Str v" "modelId s' = modelId s"
    "apiKeyMap s' = (apiKeyMap s)(selectedProvider s \<mapsto> Str v)"
    "preferredModelMap s' = preferredModelMap s"
    "getModel (providerMap ps) (modelType_of opts) (selectedProvider s) (Str v) (modelId s) = Inr (model s')"
    using dispatch_SetApiKey_fields[OF ok k False, of n] by blast
  have "consistent ps opts s'"
    unfolding consistent_def using k cm s'(2-7) by (auto simp: restored_apiKey_def truthy_def)
  then show ?thesis using s' False by auto
qed

lemma dispatch_SetModelId:
  assumes ok: "providers_ok ps opts" and c: "consistent ps opts s"
  shows "\<exists>s'. hook_dispatch (Suc (Suc n)) ps opts (SetModelId v) s = Settled s'
     \<and> consistent ps opts s'
     \<and> selectedProvider s' = selectedProvider s \<and> apiKey s' = apiKey s \<and> modelId s' = Str v
     \<and> apiKeyMap s' = apiKeyMap s
     \<and> preferredModelMap s' = (if modelId s = Str v then preferredModelMap s
                                else (preferredModelMap s)(selectedProvider s \<mapsto> Str v))"
proof (cases "modelId s = Str v")
  case True
  then show ?thesis using c by (simp add: hook_dispatch_def)
next
  case False
  from c obtain ctor ms where k: "providerMap ps (selectedProvider s) = Some (ctor, ms)"
    and ck: "apiKey s = restored_apiKey (apiKeyMap s) (selectedProvider s)"
    unfolding consistent_def by blast
  obtain s' where s': "hook_dispatch (Suc (Suc n)) ps opts (SetModelId v) s = Settled s'"
    "selectedProvider s' = selectedProvider s" "apiKey s' = apiKey s" "modelId s' = Str v"
    "apiKeyMap s' = apiKeyMap s"
    "preferredModelMap s' = (preferredModelMap s)(selectedProvider s \<mapsto> Str v)"
    "getModel (providerMap ps) (modelType_of opts) (selectedProvider s) (apiKey s) (Str v) = Inr (model s')"
    using dispatch_SetModelId_fields[OF ok k False, of n] by blast
  have "consistent ps opts s'"
    unfolding consistent_def using k ck s'(2-7) by (auto simp: restored_modelId_def js_get_def)
  then show ?thesis using s' False by auto
qed

lemma dispatch_SetSelectedProvider:
  assumes ok: "providers_ok ps opts" and known: "providerMap ps P = Some (ctor, ms)"
    and inh: "inherited P = None"
    and ne: "selectedProvider s \<noteq> P"
  shows "\<exists>s'. hook_dispatch (Suc (Suc (Suc n))) ps opts (SetSelectedProvider P) s = Settled s'
     \<and> consistent ps opts s'
     \<and> selectedProvider s' = P
     \<and> apiKey s' = restored_apiKey (apiKeyMap s) P
     \<and> modelId s' = restored_modelId (preferredModelMap s) ms P
     \<and> (\<forall>x. x \<noteq> P \<longrightarrow> apiKeyMap s' x = apiKeyMap s x \<and> preferredModelMap s' x = preferredModelMap s x)"
proof -
  let ?c = "s\<lparr>selectedProvider := P\<rparr>"
  have k': "providerMap ps (selectedProvider ?c) = Some (ctor, ms)" using known by simp
  have inh': "inherited (selectedProvider ?c) = None" using inh by simp
  have sw: "changed selectedProvider (Some s) ?c" using ne by (simp add: changed_def)
  obtain s' where s': "hook_run (Suc (Suc (Suc n))) ps opts (Some s) ?c = Settled s'"
    "selectedProvider s' = selectedProvider ?c"
    "apiKey s' = restored_apiKey (apiKeyMap ?c) (selectedProvider ?c)"
    "modelId s' = restored_modelId (preferredModelMap ?c) ms (selectedProvider ?c)"
    "\<forall>x. x \<noteq> selectedProvider ?c \<longrightarrow>
           apiKeyMap s' x = apiKeyMap ?c x \<and> preferredModelMap s' x = preferredModelMap ?c x"
    "getModel (providerMap ps) (modelType_of opts) (selectedProvider s') (apiKey s') (modelId s')
           = Inr (model s')"
    "apiKey s' = restored_apiKey (apiKeyMap s') (selectedProvider s')"
    "truthy (Val (modelId s')) \<longrightarrow>
           modelId s' = restored_modelId (preferredModelMap s') ms (selectedProvider s')"
    using hook_run_switch[OF ok k' inh' sw, of n] by blast
  have "consistent ps opts s'"
    unfolding consistent_def using known s'(2,6,7,8) by auto
  moreover have "hook_dispatch (Suc (Suc (Suc n))) ps opts (SetSelectedProvider P) s = Settled s'"
    using s'(1) ne by (simp add: hook_dispatch_def)
  ultimately show ?thesis using s'(2-5) by auto
qed

subsection \<open>The invariant of the reachable states\<close>

lemma hook_dispatch_mono:
  "hook_dispatch n ps opts a s = Settled s' \<Longrightarrow> hook_dispatch (n + k) ps opts a s = Settled s'"
  by (auto simp: hook_dispatch_def hook_run_mono split: if_splits)

lemma hook_step_unknown:
  "providerMap ps (selectedProvider c) = None \<Longrightarrow> hook_step ps opts prev c = Crash Render TypeError"
  by (simp add: hook_step_def useModelPicker_def getModel_def)

lemma hook_run_unknown:
  "providerMap ps (selectedProvider c) = None \<Longrightarrow> hook_run n ps opts prev c \<noteq> Settled s'"
  by (cases n) (simp_all add: hook_step_unknown)

lemma hook_effects_selectedProvider:
  "hook_effects pm mt prev cur pend = Inr pend' \<Longrightarrow> selectedProvider pend' = selectedProvider pend"
  by (auto simp: hook_effects_def model_effect_def restore_effect_def persist_key_effect_def
        persist_model_effect_def Let_def
      split: if_splits sum.splits option.splits prod.splits queued.splits)

lemma hook_step_selectedProvider:
  "hook_step ps opts prev cur = Next cur' \<Longrightarrow> selectedProvider cur' = selectedProvider cur"
  by (auto simp: hook_step_def hook_effects_selectedProvider split: sum.splits if_splits prod.splits)

lemma hook_run_selectedProvider:
  "hook_run n ps opts prev cur = Settled s \<Longrightarrow> selectedProvider s = selectedProvider cur"
proof (induction n arbitrary: prev cur)
  case 0
  then show ?case by simp
next
  case (Suc n)
  then show ?case
    by (cases "hook_step ps opts prev cur") (auto simp: hook_step_selectedProvider)
qed

lemma mount_consistent:
  assumes ok: "providers_ok ps opts" and m: "mount n ps opts = Settled s"
    and inh: "inherited (selectedProvider s) = None"
  shows "consistent ps opts s"
proof -
  from m obtain s0 where s0: "initial_state ps opts = Inr s0"
    and run: "hook_run n ps opts None s0 = Settled s"
    by (auto simp: mount_def split: sum.splits)
  from run obtain ctor ms where known: "providerMap ps (selectedProvider s0) = Some (ctor, ms)"
    using hook_run_unknown[of ps s0 n opts None s]
    by (cases "providerMap ps (selectedProvider s0)") auto
  have inh0: "inherited (selectedProvider s0) = None"
    using inh hook_run_selectedProvider[OF run] by simp
  have sw: "changed selectedProvider None s0" by (simp add: changed_def)
  obtain s' where s': "hook_run (Suc (Suc (Suc n))) ps opts None s0 = Settled s'"
    "selectedProvider s' = selectedProvider s0"
    "getModel (providerMap ps) (modelType_of opts) (selectedProvider s') (apiKey s') (modelId s')
           = Inr (model s')"
    "apiKey s' = restored_apiKey (apiKeyMap s') (selectedProvider s')"
    "truthy (Val (modelId s')) \<longrightarrow>
           modelId s' = restored_modelId (preferredModelMap s') ms (selectedProvider s')"
    using hook_run_switch[OF ok known inh0 sw, of n] by blast
  have "hook_run (n + 3) ps opts None s0 = Settled s"
    by (rule hook_run_mono[OF run])
  then have "s' = s" using s'(1) by (simp add: numeral_3_eq_3)
  then show ?thesis unfolding consistent_def using known s'(2-5) by auto
qed

lemma dispatch_consistent:
  assumes ok: "providers_ok ps opts"
    and c: "inherited (selectedProvider s) = None \<Longrightarrow> consistent ps opts s"
    and d: "hook_dispatch n ps opts a s = Settled s'"
    and inh: "inherited (selectedProvider s') = None"
  shows "consistent ps opts s'"
proof (cases a)
  case (SetApiKey v)
  have sp: "selectedProvider s' = selectedProvider s"
    using d SetApiKey hook_run_selectedProvider[of n ps opts "Some s" "s\<lparr>apiKey := Str v\<rparr>" s']
    by (auto simp: hook_dispatch_def split: if_splits)
  then have c': "consistent ps opts s" using c inh by simp
  have "hook_dispatch (n + 2) ps opts a s = Settled s'"
    by (rule hook_dispatch_mono[OF d])
  then show ?thesis using dispatch_SetApiKey[OF ok c', of n v] SetApiKey by auto
next
  case (SetModelId v)
  have sp: "selectedProvider s' = selectedProvider s"
    using d SetModelId hook_run_selectedProvider[of n ps opts "Some s" "s\<lparr>modelId := Str v\<rparr>" s']
    by (auto simp: hook_dispatch_def split: if_splits)
  then have c': "consistent ps opts s" using c inh by simp
  have "hook_dispatch (n + 2) ps opts a s = Settled s'"
    by (rule hook_dispatch_mono[OF d])
  then show ?thesis using dispatch_SetModelId[OF ok c', of n v] SetModelId by auto
next
  case (SetSelectedProvider P)
  show ?thesis
  proof (cases "selectedProvider s = P")
    case True
    then show ?thesis using d c inh SetSelectedProvider by (simp add: hook_dispatch_def)
  next
    case False
    then have run: "hook_run n ps opts (Some s) (s\<lparr>selectedProvider := P\<rparr>) = Settled s'"
      using d SetSelectedProvider by (simp add: hook_dispatch_def)
    then obtain ctor ms where known: "providerMap ps P = Some (ctor, ms)"
      using hook_run_unknown[of ps "s\<lparr>selectedProvider := P\<rparr>" n opts "Some s" s']
      by (cases "providerMap ps P") auto
    have inhP: "inherited P = None"
      using inh hook_run_selectedProvider[OF run] by simp
    have "hook_dispatch (n + 3) ps opts a s = Settled s'"
      by (rule hook_dispatch_mono[OF d])
    then show ?thesis
      using dispatch_SetSelectedProvider[OF ok known inhP False, of n] SetSelectedProvider
      by (auto simp: numeral_3_eq_3)
  qed
qed

lemma reachable_consistent:
  assumes ok: "providers_ok ps opts" and r: "reachable ps opts s"
    and inh: "inherited (selectedProvider s) = None"
  shows "consistent ps opts s"
proof -
  have "inherited (selectedProvider s) = None \<longrightarrow> consistent ps opts s"
    using r
  proof (induction rule: reachable.induct)
    case (mounted n s)
    then show ?case using mount_consistent[OF ok] by blast
  next
    case (dispatched s n a s')
    show ?case
    proof
      assume "inherited (selectedProvider s') = None"
      then show "consistent ps opts s'"
        using dispatched.IH dispatched.hyps(2) by (intro dispatch_consistent[OF ok, of s n a s']) simp_all
    qed
  qed
  then show ?thesis using inh by simp
qed

lemma hook_dispatches_append:
  "hook_dispatches n ps opts (as @ bs) s =
     (case hook_dispatches n ps opts as s of
        Settled s' \<Rightarrow> hook_dispatches n ps opts bs s'
      | Crashed ph e \<Rightarrow> Crashed ph e
      | OutOfFuel \<Rightarrow> OutOfFuel)"
  by (induction as arbitrary: s) (auto split: outcome.splits)

lemma edits_elsewhere:
  assumes ok: "providers_ok ps opts"
  shows "consistent ps opts s \<Longrightarrow> \<forall>a\<in>set edits. is_edit a \<Longrightarrow>
     \<exists>s'. hook_dispatches (Suc (Suc (Suc n))) ps opts edits s = Settled s'
       \<and> consistent ps opts s' \<and> selectedProvider s' = selectedProvider s
       \<and> (\<forall>x. x \<noteq> selectedProvider s \<longrightarrow>
             apiKeyMap s' x = apiKeyMap s x \<and> preferredModelMap s' x = preferredModelMap s x)"
proof (induction edits arbitrary: s)
  case Nil
  then show ?case by simp
next
  case (Cons a edits)
  have "\<exists>s1. hook_dispatch (Suc (Suc (Suc n))) ps opts a s = Settled s1
     \<and> consistent ps opts s1 \<and> selectedProvider s1 = selectedProvider s
     \<and> (\<forall>x. x \<noteq> selectedProvider s \<longrightarrow>
             apiKeyMap s1 x = apiKeyMap s x \<and> preferredModelMap s1 x = preferredModelMap s x)"
  proof (cases a)
    case (SetApiKey v)
    then show ?thesis using dispatch_SetApiKey[OF ok Cons.prems(1), of "Suc n" v] by auto
  next
    case (SetModelId v)
    then show ?thesis using dispatch_SetModelId[OF ok Cons.prems(1), of "Suc n" v] by auto
  next
    case (SetSelectedProvider P)
    then show ?thesis using Cons.prems(2) by simp
  qed
  then obtain s1 where s1: "hook_dispatch (Suc (Suc (Suc n))) ps opts a s = Settled s1"
    "consistent ps opts s1" "selectedProvider s1 = selectedProvider s"
    "\<forall>x. x \<noteq> selectedProvider s \<longrightarrow>
             apiKeyMap s1 x = apiKeyMap s x \<and> preferredModelMap s1 x = preferredModelMap s x"
    by blast
  from Cons.IH[OF s1(2)] Cons.prems(2)
  obtain s' where s': "hook_dispatches (Suc (Suc (Suc n))) ps opts edits s1 = Settled s'"
    "consistent ps opts s'" "selectedProvider s' = selectedProvider s1"
    "\<forall>x. x \<noteq> selectedProvider s1 \<longrightarrow>
             apiKeyMap s' x = apiKeyMap s1 x \<and> preferredModelMap s' x = preferredModelMap s1 x"
    by auto
  show ?case using s1 s' by auto
qed

lemma restored_apiKey_cong:
  "akm A = akm' A \<Longrightarrow> restored_apiKey akm A = restored_apiKey akm' A"
  by (simp add: restored_apiKey_def)

lemma restored_modelId_cong:
  "pmm A = pmm' A \<Longrightarrow> restored_modelId pmm ms A = restored_modelId pmm' ms A"
  by (simp add: restored_modelId_def js_get_def)

lemma example_providers_ok: "providers_ok example_providers None"
  by (auto simp: providers_ok_def providerMap_def example_providers_def echo_provider_def
      accessor_def modelType_of_def split: if_splits)

lemma providerMap_hd:
  assumes "distinct (map name ps)" "ps \<noteq> []"
  shows "providerMap ps (name (hd ps)) = Some (provider (hd ps), models (hd ps))"
  using providerMap_distinct[OF assms(1), of "hd ps"] assms(2) by simp

lemma initial_state_ok:
  assumes ok: "providers_ok ps opts" and ne: "ps \<noteq> []"
  shows "\<exists>s0. initial_state ps opts = Inr s0
     \<and> selectedProvider s0 = name (hd ps) \<and> apiKey s0 = Str [] \<and> modelId s0 = index0 (models (hd ps))
     \<and> apiKeyMap s0 = Map.empty \<and> preferredModelMap s0 = Map.empty"
proof -
  obtain p0 rest where ps: "ps = p0 # rest" using ne by (cases ps) auto
  have "name p0 \<in> name ` set ps" using ps by simp
  then obtain ctor ms where k: "providerMap ps (name p0) = Some (ctor, ms)"
    using providerMap_None[of ps "name p0"] by (cases "providerMap ps (name p0)") auto
  obtain m where "getModel (providerMap ps) (modelType_of opts) (name p0) (Str []) (index0 (models p0)) = Inr m"
    using getModel_ok[OF ok k] by blast
  then show ?thesis using ps by (simp add: initial_state_def)
qed

lemma mount_fields:
  assumes ok: "providers_ok ps opts" and ne: "ps \<noteq> []" and d: "distinct (map name ps)"
    and inh: "inherited (name (hd ps)) = None"
  shows "\<exists>s. mount (Suc (Suc (Suc n))) ps opts = Settled s
     \<and> selectedProvider s = name (hd ps) \<and> apiKey s = Str [] \<and> modelId s = index0 (models (hd ps))"
proof -
  obtain s0 where s0: "initial_state ps opts = Inr s0"
    "selectedProvider s0 = name (hd ps)" "apiKey s0 = Str []" "modelId s0 = index0 (models (hd ps))"
    "apiKeyMap s0 = Map.empty" "preferredModelMap s0 = Map.empty"
    using initial_state_ok[OF ok ne] by blast
  have k: "providerMap ps (selectedProvider s0) = Some (provider (hd ps), models (hd ps))"
    using providerMap_hd[OF d ne] s0(2) by simp
  have sw: "changed selectedProvider None s0" by (simp add: changed_def)
  have inh0: "inherited (selectedProvider s0) = None" using inh s0(2) by simp
  obtain s where s: "hook_run (Suc (Suc (Suc n))) ps opts None s0 = Settled s"
     "selectedProvider s = selectedProvider s0"
     "apiKey s = restored_apiKey (apiKeyMap s0) (selectedProvider s0)"
     "modelId s = restored_modelId (preferredModelMap s0) (models (hd ps)) (selectedProvider s0)"
    using hook_run_switch[OF ok k inh0 sw, of n] by blast
  have "mount (Suc (Suc (Suc n))) ps opts = Settled s"
    using s0(1) s(1) by (simp add: mount_def)
  then show ?thesis using s(2-4) s0(2-6)
    by (simp add: restored_apiKey_def restored_modelId_def js_get_def truthy_def)
qed

subsection \<open>Recomputations, failures, and the steps of the component\<close>

lemma recomputations_switch:
  assumes ok: "providers_ok ps opts" and known: "providerMap ps (selectedProvider c) = Some (ctor, ms)"
    and inh: "inherited (selectedProvider c) = None"
    and sw: "changed selectedProvider (Some s) c" and same: "apiKey s = apiKey c" "modelId s = modelId c"
    and m: "getModel (providerMap ps) (modelType_of opts) (selectedProvider c) (apiKey c) (modelId c)
              = Inr h1"
    and m1: "getModel (providerMap ps) (modelType_of opts) (selectedProvider c)
               (restored_apiKey (apiKeyMap c) (selectedProvider c))
               (restored_modelId (preferredModelMap c) ms (selectedProvider c)) = Inr h2"
  shows "recomputations (Suc (Suc (Suc n))) ps opts (Some s) c =
     (selectedProvider c, apiKey c, modelId c, h1)
       # (if restored_apiKey (apiKeyMap c) (selectedProvider c) = apiKey c
             \<and> restored_modelId (preferredModelMap c) ms (selectedProvider c) = modelId c
          then []
          else [(selectedProvider c, restored_apiKey (apiKeyMap c) (selectedProvider c),
                 restored_modelId (preferredModelMap c) ms (selectedProvider c), h2)])"
proof -
  define c1 where "c1 = c\<lparr>model := h1,
        modelId := restored_modelId (preferredModelMap c) ms (selectedProvider c),
        apiKey := restored_apiKey (apiKeyMap c) (selectedProvider c),
        apiKeyMap := (if changed apiKey (Some s) c then (apiKeyMap c)(selectedProvider c \<mapsto> apiKey c)
                      else apiKeyMap c),
        preferredModelMap := (if changed modelId (Some s) c
                      then (preferredModelMap c)(selectedProvider c \<mapsto> modelId c)
                      else preferredModelMap c)\<rparr>"
  have s1: "hook_step ps opts (Some s) c = Next c1"
    unfolding c1_def by (rule hook_step_switch[OF m known inh sw])
  have f: "selectedProvider c1 = selectedProvider c"
    "apiKey c1 = restored_apiKey (apiKeyMap c) (selectedProvider c)"
    "modelId c1 = restored_modelId (preferredModelMap c) ms (selectedProvider c)"
    "model c1 = h1"
    by (simp_all add: c1_def)
  have known1: "providerMap ps (selectedProvider c1) = Some (ctor, ms)"
    using known f(1) by simp
  show ?thesis
  proof (cases "apiKey c = apiKey c1 \<and> modelId c = modelId c1")
    case True
    then have "hook_step ps opts (Some c) c1 = Quiet"
      using hook_step_quiet[OF ok known1, of c] f(1) by simp
    then show ?thesis using s1 True f by simp
  next
    case False
    have m1': "getModel (providerMap ps) (modelType_of opts) (selectedProvider c1) (apiKey c1) (modelId c1) = Inr h2"
      using m1 f by simp
    define c2 where "c2 = c1\<lparr>model := h2,
        apiKeyMap := (if apiKey c = apiKey c1 then apiKeyMap c1
                       else (apiKeyMap c1)(selectedProvider c1 \<mapsto> apiKey c1)),
        preferredModelMap := (if modelId c = modelId c1 then preferredModelMap c1
                       else (preferredModelMap c1)(selectedProvider c1 \<mapsto> modelId c1))\<rparr>"
    have s2: "hook_step ps opts (Some c) c1 = Next c2"
      unfolding c2_def using hook_step_edit[OF m1', of c] f(1) False by auto
    have g: "selectedProvider c2 = selectedProvider c1" "apiKey c2 = apiKey c1" "modelId c2 = modelId c1"
      "model c2 = h2"
      by (simp_all add: c2_def)
    have s3: "hook_step ps opts (Some c1) c2 = Quiet"
      by (rule hook_step_quiet[OF ok]) (simp_all add: g known1)
    show ?thesis using s1 s2 s3 False f g(4) by auto
  qed
qed

lemma getModel_fails:
  assumes "providerMap ps sp = Some (ctor, ms)"
    and "ctor k = Inl e \<or> (\<exists>pr. ctor k = Inr pr \<and> accessor (modelType_of opts) pr mid = Inl e)"
  shows "getModel (providerMap ps) (modelType_of opts) sp k mid = Inl e"
  using assms by (auto simp: getModel_def)

lemma hook_step_no_restore_crash:
  "hook_step ps opts prev cur \<noteq> Crash RestoreEffect e"
proof (cases "providerMap ps (selectedProvider cur)")
  case None
  then show ?thesis by (simp add: hook_step_unknown)
next
  case (Some entry)
  have r: "\<And>pend. restore_effect (providerMap ps) cur pend \<noteq> Inl e"
  proof -
    fix pend
    obtain q where "restore_effect (providerMap ps) cur pend = Inr q"
      using restore_effect_only_fails_unknown[of "providerMap ps" cur entry pend] Some by blast
    then show "restore_effect (providerMap ps) cur pend \<noteq> Inl e" by simp
  qed
  show ?thesis
    by (auto simp: hook_step_def hook_effects_def r Let_def
        split: sum.splits if_splits queued.splits)
qed

lemma hook_effects_idle:
  "\<not> model_deps_changed prev cur \<Longrightarrow> hook_effects pm mt prev cur pend = Inr pend"
  by (simp add: hook_effects_def model_deps_changed_def Let_def)

lemma picker_step_quiet:
  assumes "getModel (providerMap ps) (modelType_of opts) (selectedProvider (hook c))
             (apiKey (hook c)) (modelId (hook c)) = Inr m"
    and "selectedProvider (hook p) = selectedProvider (hook c)" "apiKey (hook p) = apiKey (hook c)"
      "modelId (hook p) = modelId (hook c)" "useCustomModelInput p = useCustomModelInput c"
  shows "picker_step ps opts (Some p) c = Quiet"
  using assms
  by (simp add: picker_step_def useModelPicker_def picker_deps_changed_def model_deps_changed_def
      changed_def)

lemma picker_step_toggle:
  assumes m: "getModel (providerMap ps) (modelType_of opts) (selectedProvider (hook c))
             (apiKey (hook c)) (modelId (hook c)) = Inr m"
    and same: "selectedProvider (hook p) = selectedProvider (hook c)" "apiKey (hook p) = apiKey (hook c)"
      "modelId (hook p) = modelId (hook c)"
    and fl: "useCustomModelInput p \<noteq> useCustomModelInput c"
  shows "picker_step ps opts (Some p) c =
     Next (if useCustomModelInput c then c
           else c\<lparr>hook := (hook c)\<lparr>modelId :=
                    index0 (modelIdList ps (selectedProvider (hook c)))\<rparr>\<rparr>)"
proof -
  have idle: "\<not> model_deps_changed (Some (hook p)) (hook c)"
    using same by (simp add: model_deps_changed_def changed_def)
  have "picker_effects ps opts (Some p) c c =
     Inr (if useCustomModelInput c then c
           else c\<lparr>hook := (hook c)\<lparr>modelId :=
                    index0 (modelIdList ps (selectedProvider (hook c)))\<rparr>\<rparr>)"
    using same fl
    by (simp add: picker_effects_def hook_effects_idle[OF idle] changed_def snap_effect_def Let_def)
  then show ?thesis
    using fl by (simp add: picker_step_def useModelPicker_def m picker_deps_changed_def changed_def)
qed

lemma picker_step_model_edit:
  assumes m: "getModel (providerMap ps) (modelType_of opts) (selectedProvider (hook c))
             (apiKey (hook c)) (modelId (hook c)) = Inr m"
    and same: "selectedProvider (hook p) = selectedProvider (hook c)" "apiKey (hook p) = apiKey (hook c)"
      "useCustomModelInput p = useCustomModelInput c"
    and ch: "modelId (hook p) \<noteq> modelId (hook c)"
  shows "picker_step ps opts (Some p) c =
     Next (c\<lparr>hook := (hook c)\<lparr>model := m,
                 preferredModelMap := (preferredModelMap (hook c))
                    (selectedProvider (hook c) \<mapsto> modelId (hook c))\<rparr>,
             useCustomModelInput :=
               \<not> js_includes (modelIdList ps (selectedProvider (hook c))) (modelId (hook c))\<rparr>)"
proof -
  have e: "hook_effects (providerMap ps) (modelType_of opts) (Some (hook p)) (hook c) (hook c) =
     Inr ((hook c)\<lparr>model := m,
        apiKeyMap := (if apiKey (hook p) = apiKey (hook c) then apiKeyMap (hook c)
                       else (apiKeyMap (hook c))(selectedProvider (hook c) \<mapsto> apiKey (hook c))),
        preferredModelMap := (if modelId (hook p) = modelId (hook c) then preferredModelMap (hook c)
                       else (preferredModelMap (hook c))(selectedProvider (hook c) \<mapsto> modelId (hook c)))\<rparr>)"
    by (rule hook_effects_edit[OF m same(1)]) (simp add: ch)
  have "picker_effects ps opts (Some p) c c =
     Inr (c\<lparr>hook := (hook c)\<lparr>model := m,
                 preferredModelMap := (preferredModelMap (hook c))
                    (selectedProvider (hook c) \<mapsto> modelId (hook c))\<rparr>,
             useCustomModelInput :=
               \<not> js_includes (modelIdList ps (selectedProvider (hook c))) (modelId (hook c))\<rparr>)"
    using same ch
    by (simp add: picker_effects_def e changed_def custom_effect_def Let_def)
  then show ?thesis
    using ch by (simp add: picker_step_def useModelPicker_def m picker_deps_changed_def
        model_deps_changed_def changed_def)
qed

lemma known_entry:
  assumes "sp \<in> name ` set ps"
  obtains ctor ms where "providerMap ps sp = Some (ctor, ms)"
  using assms providerMap_None[of ps sp] by (cases "providerMap ps sp") auto

subsection \<open>Two sessions on the example providers\<close>

text \<open>The session of the hook that the documentation walks through: a key for the first
  provider, a switch, a key and a typed model id for the second, and the two switches
  that bring each provider's values back.\<close>

lemma example_session:
  "observe (session 3 example_providers None []) = Some (''OpenAI'', Str [], Str ''gpt-4o'')
   \<and> remembered (session 3 example_providers None [SetApiKey ''sk-1'']) ''OpenAI''
       = Some (Some (Str ''sk-1''), Some (Str ''gpt-4o''))
   \<and> observe (session 3 example_providers None
         [SetApiKey ''sk-1'', SetSelectedProvider ''Google''])
       = Some (''Google'', Str [], Str ''gemini-2.0-flash'')
   \<and> observe (session 3 example_providers None
         [SetApiKey ''sk-1'', SetSelectedProvider ''Google'', SetApiKey ''sk-2'',
          SetModelId ''custom-model'', SetSelectedProvider ''OpenAI''])
       = Some (''OpenAI'', Str ''sk-1'', Str ''gpt-4o'')
   \<and> observe (session 3 example_providers None
         [SetApiKey ''sk-1'', SetSelectedProvider ''Google'', SetApiKey ''sk-2'',
          SetModelId ''custom-model'', SetSelectedProvider ''OpenAI'',
          SetSelectedProvider ''Google''])
       = Some (''Google'', Str ''sk-2'', Str ''custom-model'')"
  by code_simp

text \<open>The component runs its two effects on top of the hook's, and they can undo a restore:
  coming back in custom mode to a provider whose remembered model is listed, the toggle
  falls to list mode and the model id snaps to the first of the list. The properties of
  the hook below are properties of \<open>useModelPicker\<close> used on its own.\<close>

lemma component_session:
  "picker_observe (picker_session 6 example_providers None
      [Input (SetModelId ''o4-mini''), Input (SetSelectedProvider ''Google''), ToggleClick,
       Input (SetModelId ''custom-model'')])
     = Some (''Google'', Str [], Str ''custom-model'', True)
   \<and> picker_observe (picker_session 6 example_providers None
      [Input (SetModelId ''o4-mini''), Input (SetSelectedProvider ''Google''), ToggleClick,
       Input (SetModelId ''custom-model''), Input (SetSelectedProvider ''OpenAI'')])
     = Some (''OpenAI'', Str [], Str ''gpt-4o'', False)"
  by code_simp

section \<open>The properties\<close>

subsection \<open>Switching away and back\<close>

text \<open>
  Claim C1, as the code has it. Let \<open>A\<close> and \<open>B\<close> be two providers of the list whose names
  are not names of properties that every object inherits. From any state the hook can be
  in, select \<open>A\<close>, record a key \<open>k1\<close> and a non-empty model id \<open>m1\<close> with the two setters,
  switch to \<open>B\<close>, edit the key and the model id there in any way, and switch back to \<open>A\<close>:
  the run settles, and the key is \<open>k1\<close> and the model id is \<open>m1\<close> again. The providers are
  assumed not to throw.
\<close>

theorem switch_restore_round_trip:
  assumes ok: "providers_ok ps opts" and r: "reachable ps opts s0"
    and A: "A \<in> name ` set ps" and B: "B \<in> name ` set ps" and ne: "B \<noteq> A"
    and inhA: "inherited A = None" and inhB: "inherited B = None"
    and m1: "m1 \<noteq> []" and ed: "\<forall>a\<in>set edits. is_edit a"
  shows "\<exists>s'. hook_dispatches (Suc (Suc (Suc n))) ps opts
           (SetSelectedProvider A # SetApiKey k1 # SetModelId m1 # SetSelectedProvider B
              # edits @ [SetSelectedProvider A]) s0 = Settled s'
          \<and> selectedProvider s' = A \<and> apiKey s' = Str k1 \<and> modelId s' = Str m1"
proof -
  let ?N = "Suc (Suc (Suc n))"
  obtain ctorA msA where kA: "providerMap ps A = Some (ctorA, msA)"
    using A providerMap_None[of ps A] by (cases "providerMap ps A") auto
  obtain ctorB msB where kB: "providerMap ps B = Some (ctorB, msB)"
    using B providerMap_None[of ps B] by (cases "providerMap ps B") auto
  have "\<exists>s1. hook_dispatch ?N ps opts (SetSelectedProvider A) s0 = Settled s1
     \<and> consistent ps opts s1 \<and> selectedProvider s1 = A"
  proof (cases "selectedProvider s0 = A")
    case True
    then have "consistent ps opts s0"
      using reachable_consistent[OF ok r] inhA by simp
    then show ?thesis using True by (simp add: hook_dispatch_def)
  next
    case False
    then show ?thesis using dispatch_SetSelectedProvider[OF ok kA inhA False, of n] by blast
  qed
  then obtain s1 where s1: "hook_dispatch ?N ps opts (SetSelectedProvider A) s0 = Settled s1"
    "consistent ps opts s1" "selectedProvider s1 = A"
    by blast
  obtain s2 where s2: "hook_dispatch ?N ps opts (SetApiKey k1) s1 = Settled s2"
    "consistent ps opts s2" "selectedProvider s2 = A" "apiKey s2 = Str k1"
    using dispatch_SetApiKey[OF ok s1(2), of "Suc n" k1] s1(3) by auto
  obtain s3 where s3: "hook_dispatch ?N ps opts (SetModelId m1) s2 = Settled s3"
    "consistent ps opts s3" "selectedProvider s3 = A" "apiKey s3 = Str k1" "modelId s3 = Str m1"
    using dispatch_SetModelId[OF ok s2(2), of "Suc n" m1] s2(3,4) by auto
  have remA: "restored_apiKey (apiKeyMap s3) A = Str k1"
    "restored_modelId (preferredModelMap s3) msA A = Str m1"
    using s3(2-5) kA m1 unfolding consistent_def by (auto simp: truthy_def)
  have ne3: "selectedProvider s3 \<noteq> B" using s3(3) ne by simp
  obtain s4 where s4: "hook_dispatch ?N ps opts (SetSelectedProvider B) s3 = Settled s4"
    "consistent ps opts s4" "selectedProvider s4 = B"
    "\<forall>x. x \<noteq> B \<longrightarrow> apiKeyMap s4 x = apiKeyMap s3 x \<and> preferredModelMap s4 x = preferredModelMap s3 x"
    using dispatch_SetSelectedProvider[OF ok kB inhB ne3, of n] by blast
  obtain s5 where s5: "hook_dispatches ?N ps opts edits s4 = Settled s5"
    "consistent ps opts s5" "selectedProvider s5 = selectedProvider s4"
    "\<forall>x. x \<noteq> selectedProvider s4 \<longrightarrow>
         apiKeyMap s5 x = apiKeyMap s4 x \<and> preferredModelMap s5 x = preferredModelMap s4 x"
    using edits_elsewhere[OF ok s4(2) ed, of n] by blast
  have ne5: "selectedProvider s5 \<noteq> A" using s5(3) s4(3) ne by simp
  obtain s6 where s6: "hook_dispatch ?N ps opts (SetSelectedProvider A) s5 = Settled s6"
    "selectedProvider s6 = A"
    "apiKey s6 = restored_apiKey (apiKeyMap s5) A"
    "modelId s6 = restored_modelId (preferredModelMap s5) msA A"
    using dispatch_SetSelectedProvider[OF ok kA inhA ne5, of n] by blast
  have mapsA: "apiKeyMap s5 A = apiKeyMap s3 A" "preferredModelMap s5 A = preferredModelMap s3 A"
    using s5(4) s4(3,4) ne by auto
  have "restored_apiKey (apiKeyMap s5) A = Str k1"
    using remA(1) restored_apiKey_cong[of "apiKeyMap s5" A "apiKeyMap s3", OF mapsA(1)] by simp
  moreover have "restored_modelId (preferredModelMap s5) msA A = Str m1"
    using remA(2) restored_modelId_cong[of "preferredModelMap s5" A "preferredModelMap s3" msA, OF mapsA(2)] by simp
  moreover have "hook_dispatches ?N ps opts
           (SetSelectedProvider A # SetApiKey k1 # SetModelId m1 # SetSelectedProvider B
              # edits @ [SetSelectedProvider A]) s0 = Settled s6"
    using s1(1) s2(1) s3(1) s4(1) s5(1) s6(1) by (simp add: hook_dispatches_append)
  ultimately show ?thesis using s6(2-4) by auto
qed

text \<open>The round trip on the example providers, with the values of the claim.\<close>

theorem switch_restore_round_trip_witness:
  "\<exists>s0 s'. mount 3 example_providers None = Settled s0
     \<and> hook_dispatches 3 example_providers None
           (SetSelectedProvider ''OpenAI'' # SetApiKey ''k1'' # SetModelId ''m1''
              # SetSelectedProvider ''Google''
              # [SetApiKey ''k2'', SetModelId ''custom-model''] @ [SetSelectedProvider ''OpenAI''])
           s0 = Settled s'
     \<and> selectedProvider s' = ''OpenAI'' \<and> apiKey s' = Str ''k1'' \<and> modelId s' = Str ''m1''"
proof -
  have ne: "example_providers \<noteq> []" by (simp add: example_providers_def)
  have d: "distinct (map name example_providers)" by (simp add: example_providers_def)
  have i0: "inherited (name (hd example_providers)) = None"
    by (simp add: example_providers_def inherited_def object_prototype_def)
  obtain s0 where s0: "mount 3 example_providers None = Settled s0"
    using mount_fields[OF example_providers_ok ne d i0, of 0] by (auto simp: numeral_3_eq_3)
  have r: "reachable example_providers None s0" by (rule mounted[OF s0])
  have A: "''OpenAI'' \<in> name ` set example_providers" by (simp add: example_providers_def)
  have B: "''Google'' \<in> name ` set example_providers" by (simp add: example_providers_def)
  have iA: "inherited ''OpenAI'' = None" by (simp add: inherited_def object_prototype_def)
  have iB: "inherited ''Google'' = None" by (simp add: inherited_def object_prototype_def)
  have ed: "\<forall>a\<in>set [SetApiKey ''k2'', SetModelId ''custom-model'']. is_edit a" by simp
  show ?thesis
    using switch_restore_round_trip[OF example_providers_ok r A B _ iA iB _ ed, of "''m1''" 0 "''k1''"] s0
    by (auto simp: numeral_3_eq_3)
qed

text \<open>The claim as stated fails in two ways. A recorded model id that is the empty string
  is in the dictionary after the call, and the switch back gives the first model of the
  list instead. And with a provider named \<open>valueOf\<close> as the other provider, the switch to it
  reads the function of that name in both dictionaries and hands it to the setters, and
  the next render throws a \<open>TypeError\<close> applying it: there is no switch back.\<close>

theorem switch_restore_round_trip_counterexample:
  "remembered (session 3 example_providers None [SetApiKey ''k1'', SetModelId '''']) ''OpenAI''
     = Some (Some (Str ''k1''), Some (Str ''''))
   \<and> observe (session 3 example_providers None
       [SetApiKey ''k1'', SetModelId '''', SetSelectedProvider ''Google'',
        SetSelectedProvider ''OpenAI''])
     = Some (''OpenAI'', Str ''k1'', Str ''gpt-4o'')
   \<and> observe (session 3 inherited_name_providers None [SetApiKey ''k1'', SetModelId ''m1''])
     = Some (''OpenAI'', Str ''k1'', Str ''m1'')
   \<and> crash_of (session 3 inherited_name_providers None
       [SetApiKey ''k1'', SetModelId ''m1'', SetSelectedProvider ''valueOf''])
     = Some (Render, TypeError)"
  by code_simp

subsection \<open>What a switch restores\<close>

text \<open>
  Claim C2, as the code has it. A call of \<open>setSelectedProvider\<close> that changes the selected
  provider to a provider \<open>p\<close> of the list (names distinct, providers not throwing, the name
  of \<open>p\<close> not the name of a property that every object inherits) settles with the model id
  set to the remembered one when that is truthy, that is defined and not the empty
  string, and else to the first model of \<open>p\<close>, which is \<open>undefined\<close> when \<open>p\<close> lists none;
  and with the key set to the remembered one when that is truthy, and else to the empty
  string. A provider never visited gets the empty key and its first model. A call that
  names the provider already selected changes nothing.
\<close>

theorem restore_on_switch:
  assumes ok: "providers_ok ps opts" and d: "distinct (map name ps)" and p: "p \<in> set ps"
    and inh: "inherited (name p) = None"
  shows "(if selectedProvider s = name p
          then hook_dispatch (Suc (Suc (Suc n))) ps opts (SetSelectedProvider (name p)) s = Settled s
          else \<exists>s'. hook_dispatch (Suc (Suc (Suc n))) ps opts (SetSelectedProvider (name p)) s
                  = Settled s'
             \<and> selectedProvider s' = name p
             \<and> modelId s' = (case preferredModelMap s (name p) of
                               None \<Rightarrow> index0 (models p)
                             | Some v \<Rightarrow> if truthy (Val v) then v else index0 (models p))
             \<and> apiKey s' = (case apiKeyMap s (name p) of
                               None \<Rightarrow> Str []
                             | Some k \<Rightarrow> if truthy (Val k) then k else Str [])
             \<and> (apiKeyMap s (name p) = None \<and> preferredModelMap s (name p) = None
                  \<longrightarrow> apiKey s' = Str [] \<and> modelId s' = index0 (models p)))"
proof (cases "selectedProvider s = name p")
  case True
  then show ?thesis by (simp add: hook_dispatch_def)
next
  case False
  have k: "providerMap ps (name p) = Some (provider p, models p)"
    by (rule providerMap_distinct[OF d p])
  obtain s' where s': "hook_dispatch (Suc (Suc (Suc n))) ps opts (SetSelectedProvider (name p)) s = Settled s'"
    "selectedProvider s' = name p"
    "apiKey s' = restored_apiKey (apiKeyMap s) (name p)"
    "modelId s' = restored_modelId (preferredModelMap s) (models p) (name p)"
    using dispatch_SetSelectedProvider[OF ok k inh False, of n] by blast
  have "apiKeyMap s (name p) = None \<and> preferredModelMap s (name p) = None
          \<longrightarrow> apiKey s' = Str [] \<and> modelId s' = index0 (models p)"
    using s'(3,4) by (simp add: restored_apiKey_def restored_modelId_def)
  then show ?thesis
    using s' False by (auto simp: restored_apiKey_def restored_modelId_def)
qed

theorem restore_on_switch_witness:
  "\<exists>s'. hook_dispatch 3 example_providers None (SetSelectedProvider ''Google'') example_state
          = Settled s'
     \<and> selectedProvider s' = ''Google'' \<and> modelId s' = Str ''gemini-2.0-flash''
     \<and> apiKey s' = Str []"
proof -
  let ?p = "\<lparr>provider = echo_provider ''Google'', name = ''Google'',
       models = [''gemini-2.0-flash'']\<rparr>"
  have d: "distinct (map name example_providers)" by (simp add: example_providers_def)
  have p: "?p \<in> set example_providers" by (simp add: example_providers_def)
  have i: "inherited (name ?p) = None" by (simp add: inherited_def object_prototype_def)
  show ?thesis
    using restore_on_switch[OF example_providers_ok d p i, of example_state 0]
    by (auto simp: example_state_def index0_def numeral_3_eq_3)
qed

text \<open>The claim as stated fails in two ways. A remembered model id that is the empty string
  is in the dictionary, and the switch gives the first model of the list instead. And a
  first switch to a provider named \<open>constructor\<close>, which has an entry in neither dictionary,
  reads the function \<open>Object\<close> in both and hands it to the setters: the key and the model
  id become the old key and the old model id of the other provider, each wrapped in an
  object, not the empty string and the first model \<open>c-1\<close> of the new provider.\<close>

theorem restore_on_switch_counterexample:
  "remembered (session 3 example_providers None
       [SetSelectedProvider ''Google'', SetModelId '''', SetSelectedProvider ''OpenAI''])
     ''Google'' = Some (None, Some (Str ''''))
   \<and> observe (session 3 example_providers None
       [SetSelectedProvider ''Google'', SetModelId '''', SetSelectedProvider ''OpenAI'',
        SetSelectedProvider ''Google''])
     = Some (''Google'', Str [], Str ''gemini-2.0-flash'')
   \<and> remembered (session 3 inherited_name_providers None []) ''constructor'' = Some (None, None)
   \<and> observe (session 3 inherited_name_providers None [SetSelectedProvider ''constructor''])
     = Some (''constructor'', StringObject [], StringObject ''gpt-4o'')"
  by code_simp

subsection \<open>The first render\<close>

text \<open>
  Claim C3, as the code has it. For a non-empty provider list (names distinct, providers
  not throwing) the first render has the name of the first provider as selected
  provider, the empty string as key, and as model id the first model of that provider,
  which is \<open>undefined\<close>, not the empty string, when that provider lists no model. When the
  name of the first provider is not the name of a property that every object inherits,
  mounting settles with the same three values.
\<close>

theorem initialization:
  assumes ok: "providers_ok ps opts" and ne: "ps \<noteq> []" and d: "distinct (map name ps)"
  shows "\<exists>s0. initial_state ps opts = Inr s0
     \<and> selectedProvider s0 = name (hd ps) \<and> apiKey s0 = Str []
     \<and> modelId s0 = (case models (hd ps) of [] \<Rightarrow> Undefined | m # _ \<Rightarrow> Str m)
     \<and> (inherited (name (hd ps)) = None \<longrightarrow>
          (\<exists>s. mount (Suc (Suc (Suc n))) ps opts = Settled s
             \<and> selectedProvider s = name (hd ps) \<and> apiKey s = Str []
             \<and> modelId s = (case models (hd ps) of [] \<Rightarrow> Undefined | m # _ \<Rightarrow> Str m)))"
proof -
  obtain s0 where s0: "initial_state ps opts = Inr s0"
    "selectedProvider s0 = name (hd ps)" "apiKey s0 = Str []" "modelId s0 = index0 (models (hd ps))"
    using initial_state_ok[OF ok ne] by blast
  have "inherited (name (hd ps)) = None \<longrightarrow>
          (\<exists>s. mount (Suc (Suc (Suc n))) ps opts = Settled s
             \<and> selectedProvider s = name (hd ps) \<and> apiKey s = Str []
             \<and> modelId s = index0 (models (hd ps)))"
    using mount_fields[OF ok ne d, of n] by blast
  then show ?thesis using s0 by (simp add: index0_def)
qed

theorem initialization_witness:
  "\<exists>s0 s. initial_state example_providers None = Inr s0
     \<and> selectedProvider s0 = ''OpenAI'' \<and> apiKey s0 = Str [] \<and> modelId s0 = Str ''gpt-4o''
     \<and> mount 3 example_providers None = Settled s
     \<and> selectedProvider s = ''OpenAI'' \<and> apiKey s = Str [] \<and> modelId s = Str ''gpt-4o''"
proof -
  have ne: "example_providers \<noteq> []" by (simp add: example_providers_def)
  have d: "distinct (map name example_providers)" by (simp add: example_providers_def)
  have i: "inherited (name (hd example_providers)) = None"
    by (simp add: example_providers_def inherited_def object_prototype_def)
  show ?thesis
    using initialization[OF example_providers_ok ne d, of 0] i
    by (auto simp: example_providers_def numeral_3_eq_3)
qed

text \<open>The claim as stated fails in two ways. With an empty model list the model id is
  \<open>undefined\<close> and not the empty string. And with a first provider named \<open>toString\<close> the
  effects of the first render read the function of that name in both dictionaries and
  hand it to the setters, so that the mounted hook has the string \<open>[object Undefined]\<close> as
  key and as model id, not the empty string and the first model \<open>t-1\<close>.\<close>

theorem initialization_counterexample:
  "observe (session 3 bare_providers None []) = Some (''Local'', Str [], Undefined)
   \<and> observe (session 3 bare_providers None []) \<noteq> Some (''Local'', Str [], Str '''')
   \<and> observe (session 3 toString_providers None [])
     = Some (''toString'', Str ''[object Undefined]'', Str ''[object Undefined]'')"
  by code_simp

subsection \<open>What an edit persists\<close>

text \<open>
  Claim C4, as the code has it. While a provider of the list is selected (providers not
  throwing), a call of \<open>setApiKey\<close> with a value other than the current key settles with
  that value stored under the selected provider's name in the key dictionary, every
  other entry of both dictionaries unchanged; likewise \<open>setModelId\<close> and the model
  dictionary. A call with the value the cell already holds writes nothing.
\<close>

theorem persistence_on_edit:
  assumes ok: "providers_ok ps opts" and known: "selectedProvider s \<in> name ` set ps"
  shows "(if apiKey s = Str v then hook_dispatch (Suc (Suc n)) ps opts (SetApiKey v) s = Settled s
          else \<exists>s'. hook_dispatch (Suc (Suc n)) ps opts (SetApiKey v) s = Settled s'
             \<and> selectedProvider s' = selectedProvider s
             \<and> apiKeyMap s' = (apiKeyMap s)(selectedProvider s \<mapsto> Str v)
             \<and> preferredModelMap s' = preferredModelMap s)
       \<and> (if modelId s = Str w then hook_dispatch (Suc (Suc n)) ps opts (SetModelId w) s = Settled s
          else \<exists>s'. hook_dispatch (Suc (Suc n)) ps opts (SetModelId w) s = Settled s'
             \<and> selectedProvider s' = selectedProvider s
             \<and> preferredModelMap s' = (preferredModelMap s)(selectedProvider s \<mapsto> Str w)
             \<and> apiKeyMap s' = apiKeyMap s)"
proof -
  obtain ctor ms where k: "providerMap ps (selectedProvider s) = Some (ctor, ms)"
    using known providerMap_None[of ps "selectedProvider s"]
    by (cases "providerMap ps (selectedProvider s)") auto
  have a: "apiKey s = Str v \<Longrightarrow> hook_dispatch (Suc (Suc n)) ps opts (SetApiKey v) s = Settled s"
    by (simp add: hook_dispatch_def)
  have b: "modelId s = Str w \<Longrightarrow> hook_dispatch (Suc (Suc n)) ps opts (SetModelId w) s = Settled s"
    by (simp add: hook_dispatch_def)
  show ?thesis
    using a b dispatch_SetApiKey_fields[OF ok k, of v n] dispatch_SetModelId_fields[OF ok k, of w n]
    by (cases "apiKey s = Str v"; cases "modelId s = Str w") auto
qed

theorem persistence_on_edit_witness:
  "(\<exists>s'. hook_dispatch 2 example_providers None (SetApiKey ''sk-1'') example_state = Settled s'
       \<and> apiKeyMap s' ''OpenAI'' = Some (Str ''sk-1'') \<and> apiKeyMap s' ''Google'' = None
       \<and> preferredModelMap s' ''OpenAI'' = Some (Str ''gpt-4o''))
   \<and> (\<exists>s'. hook_dispatch 2 example_providers None (SetModelId ''o4-mini'') example_state = Settled s'
       \<and> preferredModelMap s' ''OpenAI'' = Some (Str ''o4-mini'')
       \<and> preferredModelMap s' ''Google'' = None
       \<and> apiKeyMap s' ''OpenAI'' = Some (Str []))"
proof -
  have known: "selectedProvider example_state \<in> name ` set example_providers"
    by (simp add: example_state_def example_providers_def)
  show ?thesis
    using persistence_on_edit[OF example_providers_ok known, of "''sk-1''" 0 "''o4-mini''"]
    by (auto simp: example_state_def numeral_2_eq_2)
qed

text \<open>The claim as stated fails for a call with the current value: after a switch to a
  provider never visited, \<open>setApiKey\<close> with the empty string leaves the key dictionary
  without an entry for that provider.\<close>

theorem persistence_on_edit_counterexample:
  "remembered (session 3 example_providers None [SetSelectedProvider ''Google'', SetApiKey ''''])
     ''Google'' = Some (None, Some (Str ''gemini-2.0-flash''))"
  by code_simp

subsection \<open>When the model is recomputed after a switch\<close>

text \<open>
  Claim C5, as the code has it. A call of \<open>setSelectedProvider\<close> that changes the selected
  provider to a provider \<open>p\<close> of the list (names distinct, providers not throwing, the name
  of \<open>p\<close> not the name of a property that every object inherits) makes the first effect
  build a model from the intermediate state, the new provider with the old key and the
  old model id, and hand it to \<open>setModel\<close>, in the same commit as the restore; if the
  restore changed the key or the model id, the first effect runs once more and builds the
  model from the restored values. When the run has settled, the model is the one built
  from the new provider with the restored key and model id. A call that names the
  provider already selected runs no effect.
\<close>

theorem recomputation_on_switch:
  assumes ok: "providers_ok ps opts" and d: "distinct (map name ps)" and p: "p \<in> set ps"
    and inh: "inherited (name p) = None"
  shows "(if selectedProvider s = name p
          then dispatch_recomputations (Suc (Suc (Suc n))) ps opts (SetSelectedProvider (name p)) s = []
          else \<exists>h1 h2 s'.
             getModel (providerMap ps) (modelType_of opts) (name p) (apiKey s) (modelId s) = Inr h1
           \<and> getModel (providerMap ps) (modelType_of opts) (name p)
                (restored_apiKey (apiKeyMap s) (name p))
                (restored_modelId (preferredModelMap s) (models p) (name p)) = Inr h2
           \<and> dispatch_recomputations (Suc (Suc (Suc n))) ps opts (SetSelectedProvider (name p)) s =
               (name p, apiKey s, modelId s, h1)
                 # (if restored_apiKey (apiKeyMap s) (name p) = apiKey s
                       \<and> restored_modelId (preferredModelMap s) (models p) (name p) = modelId s
                    then []
                    else [(name p, restored_apiKey (apiKeyMap s) (name p),
                           restored_modelId (preferredModelMap s) (models p) (name p), h2)])
           \<and> hook_dispatch (Suc (Suc (Suc n))) ps opts (SetSelectedProvider (name p)) s = Settled s'
           \<and> model s' = h2)"
proof (cases "selectedProvider s = name p")
  case True
  then show ?thesis by (simp add: dispatch_recomputations_def)
next
  case ne: False
  let ?c = "s\<lparr>selectedProvider := name p\<rparr>"
  have k: "providerMap ps (name p) = Some (provider p, models p)"
    by (rule providerMap_distinct[OF d p])
  have k': "providerMap ps (selectedProvider ?c) = Some (provider p, models p)" using k by simp
  have inh': "inherited (selectedProvider ?c) = None" using inh by simp
  have sw: "changed selectedProvider (Some s) ?c" using ne by (simp add: changed_def)
  obtain h1 where h1: "getModel (providerMap ps) (modelType_of opts) (name p) (apiKey s) (modelId s) = Inr h1"
    using getModel_ok[OF ok k] by blast
  obtain h2 where h2: "getModel (providerMap ps) (modelType_of opts) (name p)
                (restored_apiKey (apiKeyMap s) (name p))
                (restored_modelId (preferredModelMap s) (models p) (name p)) = Inr h2"
    using getModel_ok[OF ok k] by blast
  have "recomputations (Suc (Suc (Suc n))) ps opts (Some s) ?c =
     (selectedProvider ?c, apiKey ?c, modelId ?c, h1)
       # (if restored_apiKey (apiKeyMap ?c) (selectedProvider ?c) = apiKey ?c
             \<and> restored_modelId (preferredModelMap ?c) (models p) (selectedProvider ?c) = modelId ?c
          then []
          else [(selectedProvider ?c, restored_apiKey (apiKeyMap ?c) (selectedProvider ?c),
                 restored_modelId (preferredModelMap ?c) (models p) (selectedProvider ?c), h2)])"
    by (rule recomputations_switch[OF ok k' inh' sw]) (simp_all add: h1 h2)
  then have a: "dispatch_recomputations (Suc (Suc (Suc n))) ps opts (SetSelectedProvider (name p)) s =
       (name p, apiKey s, modelId s, h1)
         # (if restored_apiKey (apiKeyMap s) (name p) = apiKey s
               \<and> restored_modelId (preferredModelMap s) (models p) (name p) = modelId s
            then []
            else [(name p, restored_apiKey (apiKeyMap s) (name p),
                   restored_modelId (preferredModelMap s) (models p) (name p), h2)])"
    using ne by (simp add: dispatch_recomputations_def)
  obtain s' where s': "hook_dispatch (Suc (Suc (Suc n))) ps opts (SetSelectedProvider (name p)) s = Settled s'"
    "consistent ps opts s'" "selectedProvider s' = name p"
    "apiKey s' = restored_apiKey (apiKeyMap s) (name p)"
    "modelId s' = restored_modelId (preferredModelMap s) (models p) (name p)"
    using dispatch_SetSelectedProvider[OF ok k inh ne, of n] by blast
  have "getModel (providerMap ps) (modelType_of opts) (name p)
                (restored_apiKey (apiKeyMap s) (name p))
                (restored_modelId (preferredModelMap s) (models p) (name p)) = Inr (model s')"
    using s'(2-5) unfolding consistent_def by auto
  then have "model s' = h2" using h2 by simp
  then show ?thesis using a h1 h2 s'(1) ne by auto
qed

theorem recomputation_on_switch_witness:
  "dispatch_recomputations 3 example_providers None (SetSelectedProvider ''Google'') example_state
     = [(''Google'', Str [], Str ''gpt-4o'', (''Google'', Str [], Str ''gpt-4o'')),
        (''Google'', Str [], Str ''gemini-2.0-flash'',
           (''Google'', Str [], Str ''gemini-2.0-flash''))]
   \<and> (\<exists>s'. hook_dispatch 3 example_providers None (SetSelectedProvider ''Google'') example_state
               = Settled s'
          \<and> model s' = (''Google'', Str [], Str ''gemini-2.0-flash''))"
proof -
  let ?p = "\<lparr>provider = echo_provider ''Google'', name = ''Google'',
       models = [''gemini-2.0-flash'']\<rparr>"
  have d: "distinct (map name example_providers)" by (simp add: example_providers_def)
  have p: "?p \<in> set example_providers" by (simp add: example_providers_def)
  have i: "inherited (name ?p) = None" by (simp add: inherited_def object_prototype_def)
  have g: "\<And>k mid. getModel (providerMap example_providers) (modelType_of None) ''Google'' k mid
             = Inr (''Google'', k, mid)"
    by (simp add: getModel_def providerMap_def example_providers_def echo_provider_def
        accessor_def modelType_of_def)
  show ?thesis
    using recomputation_on_switch[OF example_providers_ok d p i, of example_state 0]
    by (auto simp: g example_state_def restored_apiKey_def restored_modelId_def
        truthy_def index0_def numeral_3_eq_3)
qed

text \<open>The claim as stated fails: after a key and a model id were recorded for the first
  provider, the switch makes the first effect build a model from the new provider paired
  with both, the last component of the first entry, before it builds the one from the
  restored values.\<close>

theorem recomputation_on_switch_counterexample:
  "recomputations_after 3 example_providers None [SetApiKey ''k1'', SetModelId ''m1'']
       (SetSelectedProvider ''Google'')
     = [(''Google'', Str ''k1'', Str ''m1'', (''Google'', Str ''k1'', Str ''m1'')),
        (''Google'', Str [], Str ''gemini-2.0-flash'',
           (''Google'', Str [], Str ''gemini-2.0-flash''))]"
  by code_simp

subsection \<open>The toggle of the component\<close>

text \<open>
  Claim C6, as the code has it. In the component, with a provider of the list selected
  (providers not throwing): a click on the toggle in custom mode switches to list mode and
  sets the model id to the first model of the selected provider, when it lists one; a
  click in list mode switches to custom mode and changes nothing else.
\<close>

theorem toggle_side_effect:
  assumes ok: "providers_ok ps opts" and known: "selectedProvider (hook s) \<in> name ` set ps"
  shows "(if useCustomModelInput s
          then modelIdList ps (selectedProvider (hook s)) \<noteq> [] \<longrightarrow>
            (\<exists>s'. picker_dispatch (Suc (Suc (Suc n))) ps opts ToggleClick s = Settled s'
               \<and> \<not> useCustomModelInput s'
               \<and> modelId (hook s') = Str (hd (modelIdList ps (selectedProvider (hook s))))
               \<and> selectedProvider (hook s') = selectedProvider (hook s)
               \<and> apiKey (hook s') = apiKey (hook s))
          else picker_dispatch (Suc (Suc (Suc n))) ps opts ToggleClick s
               = Settled (s\<lparr>useCustomModelInput := True\<rparr>))"
proof (cases "useCustomModelInput s")
  case False
  obtain ctor ms where k: "providerMap ps (selectedProvider (hook s)) = Some (ctor, ms)"
    using known by (rule known_entry)
  define c where "c = s\<lparr>useCustomModelInput := True\<rparr>"
  obtain m where m: "getModel (providerMap ps) (modelType_of opts) (selectedProvider (hook c))
             (apiKey (hook c)) (modelId (hook c)) = Inr m"
    using getModel_ok[OF ok k, of "apiKey (hook s)" "modelId (hook s)"] by (auto simp: c_def)
  have "picker_step ps opts (Some s) c = Next (if useCustomModelInput c then c
           else c\<lparr>hook := (hook c)\<lparr>modelId :=
                    index0 (modelIdList ps (selectedProvider (hook c)))\<rparr>\<rparr>)"
    by (rule picker_step_toggle[OF m]) (simp_all add: c_def False)
  then have s1: "picker_step ps opts (Some s) c = Next c" by (simp add: c_def)
  have s2: "picker_step ps opts (Some c) c = Quiet"
    by (rule picker_step_quiet[OF m]) simp_all
  have "picker_dispatch (Suc (Suc (Suc n))) ps opts ToggleClick s = Settled c"
    using s1 s2 False by (simp add: picker_dispatch_def c_def)
  then show ?thesis using False by (simp add: c_def)
next
  case True
  show ?thesis
  proof (cases "modelIdList ps (selectedProvider (hook s)) = []")
    case True
    then show ?thesis using \<open>useCustomModelInput s\<close> by simp
  next
    case ne: False
    obtain ctor ms where k: "providerMap ps (selectedProvider (hook s)) = Some (ctor, ms)"
      using known by (rule known_entry)
    let ?L = "modelIdList ps (selectedProvider (hook s))"
    have l0: "index0 ?L = Str (hd ?L)" using ne by (cases ?L) (simp_all add: index0_def)
    have inc: "js_includes ?L (index0 ?L)" using ne by (cases ?L) (simp_all add: index0_def js_includes_def)
    define c where "c = s\<lparr>useCustomModelInput := False\<rparr>"
    obtain m where m: "getModel (providerMap ps) (modelType_of opts) (selectedProvider (hook c))
             (apiKey (hook c)) (modelId (hook c)) = Inr m"
      using getModel_ok[OF ok k, of "apiKey (hook s)" "modelId (hook s)"] by (auto simp: c_def)
    define c1 where "c1 = c\<lparr>hook := (hook c)\<lparr>modelId := index0 ?L\<rparr>\<rparr>"
    have "picker_step ps opts (Some s) c = Next (if useCustomModelInput c then c
           else c\<lparr>hook := (hook c)\<lparr>modelId :=
                    index0 (modelIdList ps (selectedProvider (hook c)))\<rparr>\<rparr>)"
      by (rule picker_step_toggle[OF m]) (simp_all add: c_def True)
    then have s1: "picker_step ps opts (Some s) c = Next c1" by (simp add: c_def c1_def)
    have f1: "selectedProvider (hook c1) = selectedProvider (hook s)" "apiKey (hook c1) = apiKey (hook s)"
      "modelId (hook c1) = index0 ?L" "\<not> useCustomModelInput c1"
      by (simp_all add: c1_def c_def)
    obtain m1 where m1: "getModel (providerMap ps) (modelType_of opts) (selectedProvider (hook c1))
             (apiKey (hook c1)) (modelId (hook c1)) = Inr m1"
      using getModel_ok[OF ok k] f1(1) by metis
    have "\<exists>s'. picker_run (Suc (Suc n)) ps opts (Some c) c1 = Settled s'
       \<and> \<not> useCustomModelInput s' \<and> modelId (hook s') = index0 ?L
       \<and> selectedProvider (hook s') = selectedProvider (hook s) \<and> apiKey (hook s') = apiKey (hook s)"
    proof (cases "modelId (hook c) = index0 ?L")
      case True
      have "picker_step ps opts (Some c) c1 = Quiet"
        by (rule picker_step_quiet[OF m1]) (simp_all add: c1_def c_def True[unfolded c_def, simplified])
      then have "picker_run (Suc (Suc n)) ps opts (Some c) c1 = Settled c1" by simp
      then show ?thesis using f1 by blast
    next
      case False
      define c2 where "c2 = c1\<lparr>hook := (hook c1)\<lparr>model := m1,
                 preferredModelMap := (preferredModelMap (hook c1))
                    (selectedProvider (hook c1) \<mapsto> modelId (hook c1))\<rparr>,
             useCustomModelInput :=
               \<not> js_includes (modelIdList ps (selectedProvider (hook c1))) (modelId (hook c1))\<rparr>"
      have s2: "picker_step ps opts (Some c) c1 = Next c2"
        unfolding c2_def
        by (rule picker_step_model_edit[OF m1]) (use False in \<open>simp_all add: c1_def c_def\<close>)
      have f2: "selectedProvider (hook c2) = selectedProvider (hook s)" "apiKey (hook c2) = apiKey (hook s)"
        "modelId (hook c2) = index0 ?L" "\<not> useCustomModelInput c2"
        using inc by (simp_all add: c2_def f1)
      have m2: "getModel (providerMap ps) (modelType_of opts) (selectedProvider (hook c2))
             (apiKey (hook c2)) (modelId (hook c2)) = Inr m1"
        using m1 f1 f2 by simp
      have s3: "picker_step ps opts (Some c1) c2 = Quiet"
        by (rule picker_step_quiet[OF m2]) (simp_all add: f1 f2)
      have "picker_run (Suc (Suc n)) ps opts (Some c) c1 = Settled c2" using s2 s3 by simp
      then show ?thesis using f2 by blast
    qed
    then obtain s' where s': "picker_run (Suc (Suc n)) ps opts (Some c) c1 = Settled s'"
       "\<not> useCustomModelInput s'" "modelId (hook s') = index0 ?L"
       "selectedProvider (hook s') = selectedProvider (hook s)" "apiKey (hook s') = apiKey (hook s)"
      by blast
    have "picker_dispatch (Suc (Suc (Suc n))) ps opts ToggleClick s = Settled s'"
      using s1 s'(1) True by (simp add: picker_dispatch_def c_def)
    then show ?thesis using s'(2-5) l0 True by auto
  qed
qed

theorem toggle_side_effect_witness:
  "(\<exists>s'. picker_dispatch 3 example_providers None ToggleClick
            \<lparr>hook = example_state\<lparr>modelId := Str ''my-model''\<rparr>, useCustomModelInput = True\<rparr>
          = Settled s'
        \<and> \<not> useCustomModelInput s' \<and> modelId (hook s') = Str ''gpt-4o'')
   \<and> picker_dispatch 3 example_providers None ToggleClick
         \<lparr>hook = example_state, useCustomModelInput = False\<rparr>
       = Settled \<lparr>hook = example_state, useCustomModelInput = True\<rparr>"
proof -
  let ?s = "\<lparr>hook = example_state\<lparr>modelId := Str ''my-model''\<rparr>, useCustomModelInput = True\<rparr>"
  let ?t = "\<lparr>hook = example_state, useCustomModelInput = False\<rparr>"
  have ks: "selectedProvider (hook ?s) \<in> name ` set example_providers"
    by (simp add: example_state_def example_providers_def)
  have kt: "selectedProvider (hook ?t) \<in> name ` set example_providers"
    by (simp add: example_state_def example_providers_def)
  have l: "modelIdList example_providers ''OpenAI'' = [''gpt-4o'', ''o4-mini'']"
    by (simp add: modelIdList_def providerMap_def example_providers_def)
  show ?thesis
    using toggle_side_effect[OF example_providers_ok ks, of 0]
      toggle_side_effect[OF example_providers_ok kt, of 0]
    by (auto simp: example_state_def l numeral_3_eq_3)
qed

text \<open>The claim as stated has the two directions exchanged: a click in list mode leaves the
  second model of the list selected, and a click in custom mode replaces the typed model
  id by the first model of the list.\<close>

theorem toggle_side_effect_counterexample:
  "picker_observe (picker_session 4 example_providers None [Input (SetModelId ''o4-mini'')])
     = Some (''OpenAI'', Str [], Str ''o4-mini'', False)
   \<and> picker_observe (picker_session 4 example_providers None
        [Input (SetModelId ''o4-mini''), ToggleClick])
     = Some (''OpenAI'', Str [], Str ''o4-mini'', True)
   \<and> picker_observe (picker_session 4 example_providers None
        [Input (SetModelId ''o4-mini''), ToggleClick, Input (SetModelId ''my-model'')])
     = Some (''OpenAI'', Str [], Str ''my-model'', True)
   \<and> picker_observe (picker_session 4 example_providers None
        [Input (SetModelId ''o4-mini''), ToggleClick, Input (SetModelId ''my-model''), ToggleClick])
     = Some (''OpenAI'', Str [], Str ''gpt-4o'', False)"
  by code_simp

subsection \<open>A constructor or an accessor that throws\<close>

text \<open>
  Claim C7, as the code has it. When a setter call leads to a state on which the
  constructor of the selected provider, or the accessor of the model kind, throws, the
  next render throws the same exception in \<open>getModel\<close> and the run ends there: nothing
  recovers, and no model is retained by a live hook. The first effect would not catch the
  exception either.
\<close>

theorem construction_failure_propagates:
  assumes ch: "\<not> unchanged a s"
    and known: "providerMap ps (selectedProvider (apply_action a s)) = Some (ctor, ms)"
    and fails: "ctor (apiKey (apply_action a s)) = Inl e
       \<or> (\<exists>pr. ctor (apiKey (apply_action a s)) = Inr pr
              \<and> accessor (modelType_of opts) pr (modelId (apply_action a s)) = Inl e)"
  shows "hook_dispatch (Suc n) ps opts a s = Crashed Render e
     \<and> model_effect (providerMap ps) (modelType_of opts) (apply_action a s) pend = Inl e"
proof -
  have g: "getModel (providerMap ps) (modelType_of opts) (selectedProvider (apply_action a s))
             (apiKey (apply_action a s)) (modelId (apply_action a s)) = Inl e"
    by (rule getModel_fails[OF known fails])
  have "hook_step ps opts (Some s) (apply_action a s) = Crash Render e"
    by (simp add: hook_step_def useModelPicker_def g)
  then have "hook_dispatch (Suc n) ps opts a s = Crashed Render e"
    using ch by (simp add: hook_dispatch_def)
  moreover have "model_effect (providerMap ps) (modelType_of opts) (apply_action a s) pend = Inl e"
    using known fails by (auto simp: model_effect_def)
  ultimately show ?thesis by simp
qed

theorem construction_failure_propagates_witness:
  "hook_dispatch 1 strict_providers None (SetApiKey ''bad'') example_state
     = Crashed Render (Thrown ''invalid key'')
   \<and> model_effect (providerMap strict_providers) (modelType_of None)
        (apply_action (SetApiKey ''bad'') example_state) example_state
     = Inl (Thrown ''invalid key'')"
proof -
  have ch: "\<not> unchanged (SetApiKey ''bad'') example_state" by (simp add: example_state_def)
  have known: "providerMap strict_providers (selectedProvider (apply_action (SetApiKey ''bad'') example_state))
       = Some (strict_provider ''OpenAI'', [''gpt-4o'', ''o4-mini''])"
    by (simp add: providerMap_def strict_providers_def example_state_def)
  have fails: "strict_provider ''OpenAI'' (apiKey (apply_action (SetApiKey ''bad'') example_state))
       = Inl (Thrown ''invalid key'')
     \<or> (\<exists>pr. strict_provider ''OpenAI'' (apiKey (apply_action (SetApiKey ''bad'') example_state)) = Inr pr
          \<and> accessor (modelType_of None) pr (modelId (apply_action (SetApiKey ''bad'') example_state))
               = Inl (Thrown ''invalid key''))"
    by (simp add: strict_provider_def)
  show ?thesis
    using construction_failure_propagates[OF ch known fails, of 0 example_state]
    by simp
qed

text \<open>The claim as stated fails: with a constructor that rejects a key, entering that key
  ends the session with the constructor's exception.\<close>

theorem construction_failure_counterexample:
  "crash_of (session 3 strict_providers None [SetApiKey ''bad''])
     = Some (Render, Thrown ''invalid key'')"
  by code_simp

subsection \<open>A model id outside the list\<close>




subsection \<open>A provider name outside the list\<close>

text \<open>
  Claim C9, as the code has it. For every name that is not in the provider list,
  \<open>setSelectedProvider\<close> stores the name with no check, and the next render throws a
  \<open>TypeError\<close> in \<open>getModel\<close>, which reads a property of the missing provider. The run
  ends in that render: the restore effect, whose own lookup would throw on the same name
  when no truthy model id is remembered for it, is never run.
\<close>

theorem unknown_provider_fails_render:
  assumes unk: "v \<notin> name ` set ps" and ne: "selectedProvider s \<noteq> v"
  shows "apply_action (SetSelectedProvider v) s = s\<lparr>selectedProvider := v\<rparr>
     \<and> hook_dispatch (Suc n) ps opts (SetSelectedProvider v) s = Crashed Render TypeError
     \<and> (\<not> truthy (js_get (preferredModelMap s) v) \<longrightarrow>
          restore_effect (providerMap ps) (s\<lparr>selectedProvider := v\<rparr>) pend = Inl TypeError)"
proof -
  have k: "providerMap ps v = None" using unk by (simp add: providerMap_None)
  have "hook_step ps opts (Some s) (s\<lparr>selectedProvider := v\<rparr>) = Crash Render TypeError"
    by (rule hook_step_unknown) (simp add: k)
  then have "hook_dispatch (Suc n) ps opts (SetSelectedProvider v) s = Crashed Render TypeError"
    using ne by (simp add: hook_dispatch_def)
  moreover have "\<not> truthy (js_get (preferredModelMap s) v) \<longrightarrow>
          restore_effect (providerMap ps) (s\<lparr>selectedProvider := v\<rparr>) pend = Inl TypeError"
    using k by (simp add: restore_effect_def)
  ultimately show ?thesis by simp
qed

theorem unknown_provider_fails_render_witness:
  "apply_action (SetSelectedProvider ''Nope'') example_state = unknown_state
   \<and> hook_dispatch 1 example_providers None (SetSelectedProvider ''Nope'') example_state
       = Crashed Render TypeError
   \<and> restore_effect (providerMap example_providers) unknown_state unknown_state = Inl TypeError"
proof -
  have unk: "''Nope'' \<notin> name ` set example_providers" by (simp add: example_providers_def)
  have ne: "selectedProvider example_state \<noteq> ''Nope''" by (simp add: example_state_def)
  have f: "\<not> truthy (js_get (preferredModelMap example_state) ''Nope'')"
    by (simp add: example_state_def js_get_def truthy_def inherited_def object_prototype_def)
  show ?thesis
    using unknown_provider_fails_render[OF unk ne, of 0 None unknown_state] f
    by (simp add: unknown_state_def)
qed

text \<open>The claim as stated fails: no run, from any state and with any provider list, ends
  with an exception thrown by the restore effect.\<close>

theorem restore_dereference_unreachable:
  "\<forall>n ps opts prev cur e. hook_run n ps opts prev cur \<noteq> Crashed RestoreEffect e"
proof (intro allI)
  fix n ps opts prev cur e
  show "hook_run n ps opts prev cur \<noteq> Crashed RestoreEffect e"
  proof (induction n arbitrary: prev cur)
    case 0
    then show ?case by simp
  next
    case (Suc n)
    then show ?case
      using hook_step_no_restore_crash[of ps opts prev cur e]
      by (cases "hook_step ps opts prev cur") auto
  qed
qed

subsection \<open>The model list of a provider name outside the list\<close>

text \<open>
  Claim C10, as the code has it. In every state whose selected provider is not in the
  provider list, the expression that computes \<open>modelIdList\<close> evaluates to the empty list
  without failing, but the render that would return it throws a \<open>TypeError\<close> in
  \<open>getModel\<close> first, so the hook returns no \<open>modelIdList\<close> in such a state.
\<close>

theorem modelIdList_unknown:
  assumes unk: "selectedProvider s \<notin> name ` set ps"
  shows "modelIdList ps (selectedProvider s) = [] \<and> useModelPicker ps opts s = Inl TypeError"
proof -
  have k: "providerMap ps (selectedProvider s) = None" using unk by (simp add: providerMap_None)
  then show ?thesis by (simp add: modelIdList_def useModelPicker_def getModel_def)
qed

theorem modelIdList_unknown_witness:
  "modelIdList example_providers ''Nope'' = []
   \<and> useModelPicker example_providers None unknown_state = Inl TypeError"
proof -
  have unk: "selectedProvider unknown_state \<notin> name ` set example_providers"
    by (simp add: unknown_state_def example_state_def example_providers_def)
  show ?thesis
    using modelIdList_unknown[OF unk, of None]
    by (simp add: unknown_state_def example_state_def)
qed

text \<open>The claim as stated fails: the render of the state in which an unknown name was
  stored returns nothing.\<close>

theorem modelIdList_unknown_counterexample:
  "(case useModelPicker example_providers None unknown_state of
      Inl e \<Rightarrow> None | Inr r \<Rightarrow> Some (r_modelIdList r)) = None"
  by (simp add: useModelPicker_def getModel_def providerMap_def example_providers_def
      unknown_state_def example_state_def)

end
